theory Spec2Isabelle
  imports Complex_Main "HOL-Library.Sublist"
begin

section \<open>Data model (src/models)\<close>

text \<open>
  The order backend keeps its data in MongoDB collections and pushes queue updates over
  Socket.io. The embedding keeps one record per Mongoose schema, a record \<open>db\<close> for the
  collections, and the Socket.io server handle as an optional record of the messages it has
  sent and of the emits that throw.

  Conventions of the embedding:
  \<^item> an ObjectId is a natural number below \<open>16 ^ 24\<close>; \<open>id_string\<close> is its
    \<open>toString()\<close>, 24 hexadecimal digits;
  \<^item> a JavaScript \<open>Number\<close> is a \<open>number\<close>: an IEEE 754 double, with the arithmetic of
    the language (round to nearest, ties to even); a \<open>Date\<close> is its epoch value in
    milliseconds (an \<open>int\<close>);
  \<^item> a string is a list of code units below 256;
  \<^item> a collection is the list of its documents in insertion order;
  \<^item> the clock reading used for the Mongoose timestamps is an argument \<open>now\<close> of every
    handler that writes a document;
  \<^item> the JWT middleware (\<open>auth\<close>, \<open>userAuth\<close>, \<open>requireRole\<close>) is not modelled: a
    handler is the function that runs once the middleware has called \<open>next()\<close>, and the
    authenticated user id is an argument.
\<close>

subsection \<open>Numbers\<close>

text \<open>
  The values of a double. \<open>Finite r\<close> stands for the double whose value is the rational
  \<open>r\<close>; the two zeros are not told apart (they compare equal, and no route shows the
  sign).
\<close>

datatype number = Finite rat | PosInf | NegInf | NaN

definition pow2 :: "int \<Rightarrow> rat" where
  "pow2 e = (if 0 \<le> e then 2 ^ nat e else 1 / 2 ^ nat (- e))"

text \<open>For \<open>0 < x\<close>, the exponent \<open>k\<close> with \<open>2 ^ k \<le> x < 2 ^ (k + 1)\<close>.\<close>

function ilog2 :: "rat \<Rightarrow> int" where
  "ilog2 x = (if x \<le> 0 then 0
              else if 2 \<le> x then ilog2 (x / 2) + 1
              else if x < 1 then ilog2 (x * 2) - 1
              else 0)"
  by pat_completeness auto
termination
proof (relation "measure (\<lambda>x. nat \<lceil>x\<rceil> + 2 * nat \<lceil>1 / x\<rceil>)")
  show "wf (measure (\<lambda>x :: rat. nat \<lceil>x\<rceil> + 2 * nat \<lceil>1 / x\<rceil>))" by simp
next
  fix x :: rat
  assume "\<not> x \<le> 0" and x: "2 \<le> x"
  have "x / 2 \<le> x - 1" using x by simp
  also have "\<dots> \<le> of_int (\<lceil>x\<rceil> - 1)" using le_of_int_ceiling[of x] by simp
  finally have "x / 2 \<le> of_int (\<lceil>x\<rceil> - 1)" .
  then have a: "\<lceil>x / 2\<rceil> \<le> \<lceil>x\<rceil> - 1" by (simp only: ceiling_le_iff)
  have p: "0 < \<lceil>x\<rceil>" using x by (simp add: ceiling_less_iff less_ceiling_iff)
  have b: "\<lceil>1 / (x / 2)\<rceil> = 1" using x by (intro ceiling_unique) (simp_all add: field_simps)
  have c: "\<lceil>1 / x\<rceil> = 1" using x by (intro ceiling_unique) (simp_all add: field_simps)
  have "nat \<lceil>x / 2\<rceil> + 2 * nat \<lceil>1 / (x / 2)\<rceil> < nat \<lceil>x\<rceil> + 2 * nat \<lceil>1 / x\<rceil>"
    unfolding b c using a p by linarith
  then show "(x / 2, x) \<in> measure (\<lambda>x. nat \<lceil>x\<rceil> + 2 * nat \<lceil>1 / x\<rceil>)"
    by (simp only: in_measure)
next
  fix x :: rat
  assume "\<not> x \<le> 0" "\<not> 2 \<le> x" and x1: "x < 1"
  then have x0: "0 < x" by simp
  have c1: "\<lceil>x\<rceil> = 1" using x0 x1 by (intro ceiling_unique) simp_all
  have "x * 2 \<le> of_int 2" using x1 by simp
  then have c2: "\<lceil>x * 2\<rceil> \<le> 2" by (simp only: ceiling_le_iff)
  have y: "1 < 1 / x" using x0 x1 by (simp add: field_simps)
  then have cy: "2 \<le> \<lceil>1 / x\<rceil>" by (simp add: le_ceiling_iff)
  have "1 / (x * 2) \<le> of_int (\<lceil>1 / x\<rceil> - 1)"
  proof (cases "2 \<le> 1 / x")
    case True
    then have "1 / (x * 2) \<le> 1 / x - 1" using x0 by (simp add: field_simps)
    also have "\<dots> \<le> of_int (\<lceil>1 / x\<rceil> - 1)" using le_of_int_ceiling[of "1 / x"] by simp
    finally show ?thesis .
  next
    case False
    then have "1 / (x * 2) \<le> 1" using x0 by (simp add: field_simps)
    also have "(1 :: rat) \<le> of_int (\<lceil>1 / x\<rceil> - 1)" using cy by linarith
    finally show ?thesis .
  qed
  then have c3: "\<lceil>1 / (x * 2)\<rceil> \<le> \<lceil>1 / x\<rceil> - 1" by (simp only: ceiling_le_iff)
  have c3': "0 < \<lceil>1 / (x * 2)\<rceil>" using x0 by (simp add: less_ceiling_iff)
  have n0: "nat \<lceil>x\<rceil> = 1" using c1 by simp
  have n1: "nat \<lceil>x * 2\<rceil> \<le> 2" using c2 by linarith
  have n2: "nat \<lceil>1 / (x * 2)\<rceil> + 1 \<le> nat \<lceil>1 / x\<rceil>" using c3 c3' cy by linarith
  have "nat \<lceil>x * 2\<rceil> + 2 * nat \<lceil>1 / (x * 2)\<rceil> < nat \<lceil>x\<rceil> + 2 * nat \<lceil>1 / x\<rceil>"
    using n0 n1 n2 by linarith
  then show "(x * 2, x) \<in> measure (\<lambda>x. nat \<lceil>x\<rceil> + 2 * nat \<lceil>1 / x\<rceil>)"
    by (simp only: in_measure)
qed

declare ilog2.simps [simp del]

definition round_half_even :: "rat \<Rightarrow> int" where
  "round_half_even x =
     (let f = \<lfloor>x\<rfloor>; r = x - of_int f
      in if r < 1 / 2 then f else if 1 / 2 < r then f + 1 else if even f then f else f + 1)"

text \<open>
  The double nearest to the rational \<open>x\<close>: 53 significant bits, exponents of the least
  bit from -1074 (the subnormal range) on, ties to the even significand, and an infinity
  from \<open>2 ^ 1024\<close> on.
\<close>

definition fl :: "rat \<Rightarrow> number" where
  "fl x =
     (if x = 0 then Finite 0
      else
        let a = \<bar>x\<bar>;
            e = max (ilog2 a - 52) (- 1074);
            y = of_int (round_half_even (a / pow2 e)) * pow2 e
        in if pow2 1024 \<le> y then (if 0 < x then PosInf else NegInf)
           else Finite (if 0 < x then y else - y))"

definition sign_of :: "number \<Rightarrow> rat" where
  "sign_of x = (case x of Finite a \<Rightarrow> sgn a | PosInf \<Rightarrow> 1 | NegInf \<Rightarrow> - 1 | NaN \<Rightarrow> 0)"

definition inf_of_sign :: "rat \<Rightarrow> number" where
  "inf_of_sign s = (if s = 0 then NaN else if 0 < s then PosInf else NegInf)"

text \<open>The operators \<open>*\<close> and \<open>+\<close> on two numbers.\<close>

fun dmul :: "number \<Rightarrow> number \<Rightarrow> number" where
  "dmul (Finite a) (Finite b) = fl (a * b)"
| "dmul NaN y = NaN"
| "dmul x NaN = NaN"
| "dmul x y = inf_of_sign (sign_of x * sign_of y)"

fun dadd :: "number \<Rightarrow> number \<Rightarrow> number" where
  "dadd (Finite a) (Finite b) = fl (a + b)"
| "dadd NaN y = NaN"
| "dadd x NaN = NaN"
| "dadd PosInf NegInf = NaN"
| "dadd NegInf PosInf = NaN"
| "dadd PosInf y = PosInf"
| "dadd x PosInf = PosInf"
| "dadd NegInf y = NegInf"
| "dadd x NegInf = NegInf"

declare dmul.simps [simp del] dadd.simps [simp del]

text \<open>\<open>x >= r\<close> for a number \<open>x\<close>; false of \<open>NaN\<close>.\<close>

definition at_least :: "rat \<Rightarrow> number \<Rightarrow> bool" where
  "at_least r x = (case x of Finite a \<Rightarrow> r \<le> a | PosInf \<Rightarrow> True | NegInf \<Rightarrow> False | NaN \<Rightarrow> False)"

subsection \<open>Documents\<close>

type_synonym objectId = nat

datatype status = pending | preparing | ready | completed

text \<open>\<open>orderItemSchema\<close> of models/Order.js.\<close>

record orderItem =
  menuItemId :: objectId
  name :: string
  quantity :: number
  price :: number

text \<open>\<open>orderSchema\<close> of models/Order.js, with \<open>_id\<close> and the two timestamps.\<close>

record order =
  order_id :: objectId
  userId :: "objectId option"
  customerName :: string
  items :: "orderItem list"
  totalAmount :: number
  status :: status
  createdAt :: int
  updatedAt :: int

text \<open>\<open>menuItemSchema\<close> of models/MenuItem.js.\<close>

record menuItem =
  m_id :: objectId
  m_name :: string
  description :: string
  m_price :: number
  category :: string
  isAvailable :: bool
  imageUrl :: string

text \<open>
  \<open>cartItemSchema\<close> of models/Cart.js; an element of \<open>req.body.items\<close> of
  \<open>POST /api/orders\<close> has the same two fields (the quantity sent as a JSON number).
\<close>

record itemRequest =
  req_menuItemId :: objectId
  req_quantity :: number

text \<open>
  The collections. \<open>carts\<close> is keyed by the cart's unique \<open>userId\<close>, \<open>users\<close> maps a
  user id to the stored \<open>name\<close>, \<open>nextId\<close> is the next fresh ObjectId.
\<close>

record db =
  orders :: "order list"
  menu :: "objectId \<rightharpoonup> menuItem"
  carts :: "objectId \<rightharpoonup> itemRequest list"
  users :: "objectId \<rightharpoonup> string"
  nextId :: objectId

section \<open>Strings\<close>

fun status_name :: "status \<Rightarrow> string" where
  "status_name pending = ''pending''"
| "status_name preparing = ''preparing''"
| "status_name ready = ''ready''"
| "status_name completed = ''completed''"

text \<open>The validator \<open>isIn(['pending', 'preparing', 'ready', 'completed'])\<close>.\<close>

definition parse_status :: "string \<Rightarrow> status option" where
  "parse_status s =
     (if s = ''pending'' then Some pending
      else if s = ''preparing'' then Some preparing
      else if s = ''ready'' then Some ready
      else if s = ''completed'' then Some completed
      else None)"

text \<open>
  The white space and line terminators of the language among the code units below 256:
  tab, line feed, vertical tab, form feed, carriage return, space, no-break space.
\<close>

definition is_space :: "char \<Rightarrow> bool" where
  "is_space c =
     (c \<in> set [CHR 0x09, CHR 0x0A, CHR 0x0B, CHR 0x0C, CHR 0x0D, CHR 0x20, CHR 0xA0])"

definition trim :: "string \<Rightarrow> string" where
  "trim s = rev (dropWhile is_space (rev (dropWhile is_space s)))"

text \<open>\<open>Array.prototype.join\<close>.\<close>

fun join :: "string \<Rightarrow> string list \<Rightarrow> string" where
  "join sep [] = []"
| "join sep [x] = x"
| "join sep (x # y # ys) = x @ sep @ join sep (y # ys)"

definition hex_char :: "nat \<Rightarrow> char" where
  "hex_char n = ''0123456789abcdef'' ! n"

text \<open>\<open>ObjectId.prototype.toString\<close>: the 24 hexadecimal digits of the twelve bytes.\<close>

fun hex_digits :: "nat \<Rightarrow> nat \<Rightarrow> string" where
  "hex_digits 0 n = []"
| "hex_digits (Suc k) n = hex_digits k (n div 16) @ [hex_char (n mod 16)]"

definition id_string :: "objectId \<Rightarrow> string" where
  "id_string n = hex_digits 24 n"

definition hex_val :: "char \<Rightarrow> nat option" where
  "hex_val c =
     (let n = (of_char c :: nat)
      in if 48 \<le> n \<and> n \<le> 57 then Some (n - 48)
         else if 97 \<le> n \<and> n \<le> 102 then Some (n - 87)
         else if 65 \<le> n \<and> n \<le> 70 then Some (n - 55)
         else None)"

text \<open>
  The cast of a string to an ObjectId that \<open>findById\<close> performs: a string of 24
  hexadecimal digits is an id, and the cast of another string fails (a \<open>CastError\<close>).
\<close>

definition parse_objectId :: "string \<Rightarrow> objectId option" where
  "parse_objectId s =
     (if length s = 24 \<and> list_all (\<lambda>c. hex_val c \<noteq> None) s
      then Some (foldl (\<lambda>a c. 16 * a + the (hex_val c)) 0 s)
      else None)"

text \<open>Lower case of the letters \<open>A\<close> to \<open>Z\<close>, for the router's comparison of paths.\<close>

definition lower_char :: "char \<Rightarrow> char" where
  "lower_char c =
     (let n = (of_char c :: nat) in if 65 \<le> n \<and> n \<le> 90 then char_of (n + 32) else c)"

definition dquote :: string where
  "dquote = [CHR 0x22]"

section \<open>Responses\<close>

text \<open>
  What a handler sends: \<open>Ok\<close> is \<open>res.json\<close> (200), \<open>Created\<close> is status 201,
  \<open>BadRequestErrors\<close> is the 400 with the validator's \<open>errors\<close> array, \<open>BadRequest\<close> and
  \<open>NotFound\<close> are the 400 and the 404 with a \<open>message\<close>. \<open>Rejected\<close> is a handler that
  throws, or whose promise rejects, before it has sent anything: the caller gets no answer
  from the handler itself.
\<close>

datatype 'a response =
    Ok 'a
  | Created 'a
  | BadRequestErrors "string list"
  | BadRequest string
  | NotFound string
  | Rejected

section \<open>Repository operations (Mongoose)\<close>

text \<open>\<open>Model.findById\<close> on the orders collection.\<close>

definition findById :: "order list \<Rightarrow> objectId \<Rightarrow> order option" where
  "findById os i = find (\<lambda>x. order_id x = i) os"

text \<open>\<open>['pending', 'preparing'].includes(order.status)\<close>, also the query
  \<open>{status: {$in: ['pending', 'preparing']}}\<close>.\<close>

definition isActive :: "status \<Rightarrow> bool" where
  "isActive s = (s = pending \<or> s = preparing)"

text \<open>
  The schema validation that \<open>Order.create\<close> runs before it inserts: \<open>customerName\<close> is
  required (after the \<open>trim\<close> setter an empty string is missing), every item quantity has
  \<open>min: 1\<close>, and no \<open>Number\<close> path takes \<open>NaN\<close>.
\<close>

definition order_valid :: "string \<Rightarrow> orderItem list \<Rightarrow> number \<Rightarrow> bool" where
  "order_valid cname its amount =
     (trim cname \<noteq> []
      \<and> (\<forall>it \<in> set its. at_least 1 (quantity it) \<and> price it \<noteq> NaN)
      \<and> amount \<noteq> NaN)"

text \<open>
  \<open>Order.create({userId, customerName, items, totalAmount})\<close>: the document gets a fresh
  \<open>_id\<close>, the default status \<open>pending\<close> and both timestamps from the clock, and is
  appended to the collection. \<open>None\<close> is the rejected promise of a validation error.
\<close>

definition Order_create ::
  "int \<Rightarrow> objectId option \<Rightarrow> string \<Rightarrow> orderItem list \<Rightarrow> number \<Rightarrow> db \<Rightarrow> (order \<times> db) option" where
  "Order_create now uid cname its amount d =
     (if \<not> order_valid cname its amount then None
      else
        let ord = \<lparr>order_id = nextId d, userId = uid, customerName = trim cname,
                   items = its, totalAmount = amount, status = pending,
                   createdAt = now, updatedAt = now\<rparr>
        in Some (ord, d\<lparr>orders := orders d @ [ord], nextId := Suc (nextId d)\<rparr>))"

text \<open>\<open>order.save()\<close>: the stored document with this \<open>_id\<close> is replaced.\<close>

definition save :: "db \<Rightarrow> order \<Rightarrow> db" where
  "save d ord = d\<lparr>orders := map (\<lambda>x. if order_id x = order_id ord then ord else x) (orders d)\<rparr>"

text \<open>
  \<open>Order.find({status: {$in: ['pending', 'preparing']}}).sort({createdAt: 1})\<close>. MongoDB
  leaves the relative order of documents with equal sort keys open; the model sorts stably
  from insertion order.
\<close>

definition activeOrders :: "db \<Rightarrow> order list" where
  "activeOrders d = sort_key createdAt (filter (\<lambda>x. isActive (status x)) (orders d))"

text \<open>\<open>.sort({createdAt: -1})\<close>.\<close>

definition sort_desc :: "order list \<Rightarrow> order list" where
  "sort_desc os = sort_key (\<lambda>x. - createdAt x) os"

text \<open>
  \<open>orderSchema.methods.getQueuePosition\<close> (models/Order.js): the count of active
  documents created strictly before this one, plus one.
\<close>

definition getQueuePosition :: "db \<Rightarrow> order \<Rightarrow> nat" where
  "getQueuePosition d ord =
     length (filter (\<lambda>x. isActive (status x) \<and> createdAt x < createdAt ord) (orders d)) + 1"

section \<open>Realtime module (src/socket)\<close>

datatype channel = Global | OrderRoom objectId | Kitchen

text \<open>An element of \<open>queueData\<close>.\<close>

record queueEntry =
  orderId :: objectId
  q_status :: status
  q_customerName :: string
  queuePosition :: nat

datatype payload =
    Entries "queueEntry list"
  | Position objectId status nat
  | ReadyInfo objectId

record message =
  chan :: channel
  event :: string
  body :: payload

text \<open>
  The Socket.io server: the messages it has sent, oldest first, and which emits throw.
  Socket.io is not part of the repository, so what makes a publish fail is a parameter of
  the model, the predicate \<open>fails\<close>. \<open>io.emit\<close> addresses every connected socket
  (\<open>Global\<close>), \<open>io.to(room).emit\<close> one room.
\<close>

record server =
  sent :: "message list"
  fails :: "message \<Rightarrow> bool"

text \<open>The module-level \<open>io\<close>: \<open>None\<close> while it is \<open>null\<close>.\<close>

type_synonym transport = "server option"

definition initSocket :: "(message \<Rightarrow> bool) \<Rightarrow> transport" where
  "initSocket f = Some \<lparr>sent = [], fails = f\<rparr>"

text \<open>One call of \<open>emit\<close>; \<open>None\<close> when it throws.\<close>

definition emit :: "message \<Rightarrow> server \<Rightarrow> server option" where
  "emit m srv = (if fails srv m then None else Some (srv\<lparr>sent := sent srv @ [m]\<rparr>))"

text \<open>
  Emits one after the other, as a block of statements does: the first one that throws
  ends the block. The result says whether one threw.
\<close>

fun emit_all :: "message list \<Rightarrow> server \<Rightarrow> server \<times> bool" where
  "emit_all [] srv = (srv, False)"
| "emit_all (m # ms) srv =
     (case emit m srv of
        None \<Rightarrow> (srv, True)
      | Some srv' \<Rightarrow> emit_all ms srv')"

text \<open>\<open>activeOrders.map((order, index) => ...)\<close>.\<close>

definition queueData :: "order list \<Rightarrow> queueEntry list" where
  "queueData os =
     map (\<lambda>(index, ord). \<lparr>orderId = order_id ord, q_status = status ord,
                           q_customerName = customerName ord, queuePosition = index + 1\<rparr>)
         (enumerate 0 os)"

definition position_message :: "queueEntry \<Rightarrow> message" where
  "position_message entry =
     \<lparr>chan = OrderRoom (orderId entry), event = ''queue:position'',
      body = Position (orderId entry) (q_status entry) (queuePosition entry)\<rparr>"

text \<open>The emits of \<open>emitQueueUpdate\<close>, in the order of the source.\<close>

definition snapshot_messages :: "db \<Rightarrow> message list" where
  "snapshot_messages d =
     (let qd = queueData (activeOrders d)
      in [\<lparr>chan = Global, event = ''queue:update'', body = Entries qd\<rparr>]
         @ map position_message qd
         @ [\<lparr>chan = Kitchen, event = ''kitchen:queue'', body = Entries qd\<rparr>])"

text \<open>
  \<open>emitQueueUpdate\<close>. Every caller calls it without \<open>await\<close> and drops its promise, so
  an emit that throws ends the broadcast and nothing else; the model runs the one read of
  the collection on the database as the calling handler leaves it.
\<close>

definition emitQueueUpdate :: "db \<Rightarrow> transport \<Rightarrow> transport" where
  "emitQueueUpdate d io =
     (case io of
        None \<Rightarrow> None
      | Some srv \<Rightarrow> Some (fst (emit_all (snapshot_messages d) srv)))"

text \<open>The two emits of \<open>emitOrderReady\<close>.\<close>

definition ready_messages :: "objectId \<Rightarrow> message list" where
  "ready_messages oid =
     [\<lparr>chan = OrderRoom oid, event = ''order:ready'', body = ReadyInfo oid\<rparr>,
      \<lparr>chan = Global, event = ''queue:update'', body = Entries []\<rparr>]"

text \<open>
  \<open>emitOrderReady\<close>, a synchronous function: an emit that throws is an exception of the
  call. The result is the transport and whether the call threw.
\<close>

definition emitOrderReady :: "objectId \<Rightarrow> transport \<Rightarrow> transport \<times> bool" where
  "emitOrderReady oid io =
     (case io of
        None \<Rightarrow> (None, False)
      | Some srv \<Rightarrow> (Some (fst (emit_all (ready_messages oid) srv)),
                     snd (emit_all (ready_messages oid) srv)))"

section \<open>Order routes (src/routes/orders.js)\<close>

subsection \<open>POST /api/orders\<close>

text \<open>
  The validator \<open>isInt({min: 1})\<close> on a JSON number. It reads the value through
  \<open>String\<close>, which writes a double as digits only when its value is an integer below
  \<open>10 ^ 21\<close> in absolute value.
\<close>

definition isInt_min1 :: "number \<Rightarrow> bool" where
  "isInt_min1 q =
     (case q of
        Finite a \<Rightarrow> a = of_int \<lfloor>a\<rfloor> \<and> 1 \<le> a \<and> a < 10 ^ 21
      | PosInf \<Rightarrow> False
      | NegInf \<Rightarrow> False
      | NaN \<Rightarrow> False)"

text \<open>
  The validation chain of the route, as the list of messages of \<open>errors.array()\<close>. The
  check \<open>notEmpty\<close> on \<open>items.*.menuItemId\<close> holds of every \<open>objectId\<close>.
\<close>

definition post_validation :: "string \<Rightarrow> itemRequest list \<Rightarrow> string list" where
  "post_validation cname its =
     (if trim cname = [] then [''Customer name is required''] else [])
     @ (if 1 \<le> length its then [] else [''At least one item is required''])
     @ concat (map (\<lambda>it. if isInt_min1 (req_quantity it) then []
                          else [''Quantity must be at least 1'']) its)"

text \<open>
  The loop \<open>for (const item of items)\<close> that both creation routes run: it looks every
  item up in the menu, stops with a 400 message at the first one that is missing or not
  available, and otherwise accumulates the price snapshots and the total. The two routes
  differ in the wording of the two messages only, which are arguments here.
\<close>

fun build_items ::
  "(objectId \<Rightarrow> string) \<Rightarrow> (string \<Rightarrow> string) \<Rightarrow> (objectId \<rightharpoonup> menuItem)
     \<Rightarrow> itemRequest list \<Rightarrow> orderItem list \<Rightarrow> number \<Rightarrow> string + orderItem list \<times> number" where
  "build_items missing unavailable m [] orderItems amount = Inr (orderItems, amount)"
| "build_items missing unavailable m (item # rest) orderItems amount =
     (case m (req_menuItemId item) of
        None \<Rightarrow> Inl (missing (req_menuItemId item))
      | Some menuItem \<Rightarrow>
          if \<not> isAvailable menuItem then Inl (unavailable (m_name menuItem))
          else
            let lineTotal = dmul (m_price menuItem) (req_quantity item)
            in build_items missing unavailable m rest
                 (orderItems @ [\<lparr>menuItemId = m_id menuItem, name = m_name menuItem,
                                  quantity = req_quantity item, price = m_price menuItem\<rparr>])
                 (dadd amount lineTotal))"

definition post_missing :: "objectId \<Rightarrow> string" where
  "post_missing i = ''Menu item '' @ id_string i @ '' not found.''"

definition post_unavailable :: "string \<Rightarrow> string" where
  "post_unavailable n = dquote @ n @ dquote @ '' is currently unavailable.''"

definition post_order ::
  "int \<Rightarrow> string \<Rightarrow> itemRequest list \<Rightarrow> db \<Rightarrow> transport
     \<Rightarrow> (order \<times> nat) response \<times> db \<times> transport" where
  "post_order now cname its d io =
     (if post_validation cname its \<noteq> [] then (BadRequestErrors (post_validation cname its), d, io)
      else
        case build_items post_missing post_unavailable (menu d) its [] (Finite 0) of
          Inl msg \<Rightarrow> (BadRequest msg, d, io)
        | Inr (orderItems, amount) \<Rightarrow>
            (case Order_create now None (trim cname) orderItems amount d of
               None \<Rightarrow> (Rejected, d, io)
             | Some (ord, d') \<Rightarrow>
                 (Created (ord, getQueuePosition d' ord), d', emitQueueUpdate d' io)))"

subsection \<open>GET /api/orders, /history, /:id\<close>

definition get_orders :: "db \<Rightarrow> order list response" where
  "get_orders d = Ok (activeOrders d)"

text \<open>One day, for \<open>end.setDate(end.getDate() + 1)\<close> on a day without a clock change.\<close>

definition day_ms :: int where
  "day_ms = 86400000"

text \<open>
  The filter of \<open>GET /history\<close>. A query parameter is optional, and an empty string is
  falsy; \<open>qdate\<close> is \<open>new Date(req.query.date)\<close>.
\<close>

definition history_filter :: "string option \<Rightarrow> int option \<Rightarrow> order \<Rightarrow> bool" where
  "history_filter qstatus qdate x =
     ((case qstatus of
         None \<Rightarrow> True
       | Some s \<Rightarrow> s = [] \<or> status_name (status x) = s)
      \<and> (case qdate of
           None \<Rightarrow> True
         | Some start \<Rightarrow> start \<le> createdAt x \<and> createdAt x < start + day_ms))"

definition get_history :: "string option \<Rightarrow> int option \<Rightarrow> db \<Rightarrow> order list response" where
  "get_history qstatus qdate d =
     Ok (take 200 (sort_desc (filter (history_filter qstatus qdate) (orders d))))"

text \<open>The handler of \<open>GET /:id\<close>, once \<open>findById\<close> has cast \<open>req.params.id\<close>.\<close>

definition get_order :: "objectId \<Rightarrow> db \<Rightarrow> (order \<times> nat option) response" where
  "get_order oid d =
     (case findById (orders d) oid of
        None \<Rightarrow> NotFound ''Order not found.''
      | Some ord \<Rightarrow>
          Ok (ord, if isActive (status ord) then Some (getQueuePosition d ord) else None))"

subsection \<open>PATCH /api/orders/:id/status\<close>

fun VALID_TRANSITIONS :: "status \<Rightarrow> status list" where
  "VALID_TRANSITIONS pending = [preparing]"
| "VALID_TRANSITIONS preparing = [ready]"
| "VALID_TRANSITIONS ready = [completed]"
| "VALID_TRANSITIONS completed = []"

text \<open>The message of the 400 that rejects a transition.\<close>

definition transition_message :: "status \<Rightarrow> status \<Rightarrow> status list \<Rightarrow> string" where
  "transition_message current requested allowed =
     ''Cannot transition from '' @ dquote @ status_name current @ dquote
     @ '' to '' @ dquote @ status_name requested @ dquote
     @ ''. Allowed next status: ''
     @ (if join '', '' (map status_name allowed) = [] then ''none (order is completed)''
        else join '', '' (map status_name allowed))"

text \<open>
  The handler up to \<open>order.status = status\<close>: the validation, the read
  \<open>await Order.findById\<close> and the check against the table. It ends with a response, or
  holds the document it has read, with the requested status set.
\<close>

definition patch_read :: "objectId \<Rightarrow> string \<Rightarrow> db \<Rightarrow> order response + order" where
  "patch_read oid body_status d =
     (case parse_status body_status of
        None \<Rightarrow> Inl (BadRequestErrors [''Invalid status''])
      | Some st \<Rightarrow>
          (case findById (orders d) oid of
             None \<Rightarrow> Inl (NotFound ''Order not found.'')
           | Some ord \<Rightarrow>
               let allowed = VALID_TRANSITIONS (status ord)
               in if st \<notin> set allowed
                  then Inl (BadRequest (transition_message (status ord) st allowed))
                  else Inr (ord\<lparr>status := st\<rparr>)))"

text \<open>
  The rest of the handler, from \<open>await order.save()\<close> on: the write of the held document,
  \<open>emitOrderReady\<close> when the new status is ready, \<open>emitQueueUpdate\<close>, the response. There
  is no \<open>try\<close> around \<open>emitOrderReady\<close>: when it throws, the handler ends there.
\<close>

definition patch_write ::
  "int \<Rightarrow> order \<Rightarrow> db \<Rightarrow> transport \<Rightarrow> order response \<times> db \<times> transport" where
  "patch_write now held d io =
     (let ord' = held\<lparr>updatedAt := now\<rparr>;
          d' = save d ord'
      in if status ord' = ready
         then (let (io', thrown) = emitOrderReady (order_id ord') io
               in if thrown then (Rejected, d', io')
                  else (Ok ord', d', emitQueueUpdate d' io'))
         else (Ok ord', d', emitQueueUpdate d' io))"

text \<open>The handler served without another one in between.\<close>

definition patch_status ::
  "int \<Rightarrow> objectId \<Rightarrow> string \<Rightarrow> db \<Rightarrow> transport \<Rightarrow> order response \<times> db \<times> transport" where
  "patch_status now oid body_status d io =
     (case patch_read oid body_status d of
        Inl res \<Rightarrow> (res, d, io)
      | Inr held \<Rightarrow> patch_write now held d io)"

subsection \<open>POST /api/orders/from-cart\<close>

definition cart_missing :: "objectId \<Rightarrow> string" where
  "cart_missing i =
     ''A cart item (ID: '' @ id_string i @ '') no longer exists. Please refresh your cart.''"

definition cart_unavailable :: "string \<Rightarrow> string" where
  "cart_unavailable n =
     dquote @ n @ dquote @ '' is currently unavailable. Remove it from your cart to continue.''"

definition from_cart ::
  "int \<Rightarrow> objectId \<Rightarrow> db \<Rightarrow> transport \<Rightarrow> (order \<times> nat) response \<times> db \<times> transport" where
  "from_cart now uid d io =
     (case users d uid of
        None \<Rightarrow> (NotFound ''User not found.'', d, io)
      | Some uname \<Rightarrow>
          (case carts d uid of
             None \<Rightarrow> (BadRequest ''Your cart is empty.'', d, io)
           | Some cart_items \<Rightarrow>
               if length cart_items = 0 then (BadRequest ''Your cart is empty.'', d, io)
               else
                 (case build_items cart_missing cart_unavailable (menu d) cart_items []
                         (Finite 0) of
                    Inl msg \<Rightarrow> (BadRequest msg, d, io)
                  | Inr (orderItems, amount) \<Rightarrow>
                      (case Order_create now (Some uid) uname orderItems amount d of
                         None \<Rightarrow> (Rejected, d, io)
                       | Some (ord, d') \<Rightarrow>
                           let queuePos = getQueuePosition d' ord;
                               d'' = d'\<lparr>carts := (carts d')(uid := Some [])\<rparr>
                           in (Created (ord, queuePos), d'', emitQueueUpdate d'' io)))))"

subsection \<open>GET /api/orders/my\<close>

definition my_filter :: "objectId \<Rightarrow> string option \<Rightarrow> order \<Rightarrow> bool" where
  "my_filter uid qstatus x =
     (userId x = Some uid
      \<and> (case qstatus of
           None \<Rightarrow> True
         | Some s \<Rightarrow> s = [] \<or> status_name (status x) = s))"

text \<open>The handler that the source registers for \<open>GET /my\<close>, last of the GET routes.\<close>

definition get_my :: "objectId \<Rightarrow> string option \<Rightarrow> db \<Rightarrow> (order \<times> nat option) list response" where
  "get_my uid qstatus d =
     Ok (map (\<lambda>ord. (ord, if isActive (status ord) then Some (getQueuePosition d ord) else None))
             (take 50 (sort_desc (filter (my_filter uid qstatus) (orders d)))))"

subsection \<open>The GET routes of the router\<close>

text \<open>
  A path below \<open>/api/orders\<close> is the list of its segments. The router tries its routes
  in the order of registration and runs the handler of the first one whose pattern
  matches the path; none of the handlers calls \<open>next()\<close>. A literal segment is compared
  without regard to case, a parameter (\<open>:id\<close>) matches any segment that is not empty.
\<close>

datatype segment = Lit string | Param

fun seg_matches :: "segment \<Rightarrow> string \<Rightarrow> bool" where
  "seg_matches (Lit l) s = (map lower_char s = l)"
| "seg_matches Param s = (s \<noteq> [])"

datatype get_route = ActiveList | History | ById | My

text \<open>\<open>router.get\<close> of \<open>'/'\<close>, \<open>'/history'\<close>, \<open>'/:id'\<close> and \<open>'/my'\<close>, as the file has them.\<close>

definition get_routes :: "(segment list \<times> get_route) list" where
  "get_routes =
     [([], ActiveList), ([Lit ''history''], History), ([Param], ById), ([Lit ''my''], My)]"

definition route_of :: "string list \<Rightarrow> get_route option" where
  "route_of path =
     map_option snd (find (\<lambda>(pat, r). list_all2 seg_matches pat path) get_routes)"

datatype get_result =
    Listing "order list"
  | Single order "nat option"
  | Mine "(order \<times> nat option) list"

text \<open>
  A GET request below \<open>/api/orders\<close>, with the query parameters \<open>status\<close> and \<open>date\<close>
  and the authenticated user. The handler of \<open>/:id\<close> passes the segment to
  \<open>Order.findById\<close>, whose promise rejects when the segment is no ObjectId (the path
  that matches \<open>/:id\<close> has one segment). A path that no route matches gets the 404 of
  app.js.
\<close>

definition orders_get ::
  "string list \<Rightarrow> string option \<Rightarrow> int option \<Rightarrow> objectId \<Rightarrow> db \<Rightarrow> get_result response" where
  "orders_get path qstatus qdate uid d =
     (case route_of path of
        None \<Rightarrow> NotFound (''Route GET /api/orders'' @ concat (map (\<lambda>s. ''/'' @ s) path)
                            @ '' not found.'')
      | Some ActiveList \<Rightarrow> map_response Listing (get_orders d)
      | Some History \<Rightarrow> map_response Listing (get_history qstatus qdate d)
      | Some ById \<Rightarrow>
          (case path of
             [] \<Rightarrow> Rejected
           | seg # rest \<Rightarrow>
               (case parse_objectId seg of
                  None \<Rightarrow> Rejected
                | Some oid \<Rightarrow> map_response (\<lambda>(ord, pos). Single ord pos) (get_order oid d)))
      | Some My \<Rightarrow> map_response Mine (get_my uid qstatus d))"

section \<open>Menu routes that change the catalog (src/routes/menu.js)\<close>

text \<open>
  The body of \<open>PUT /api/menu/:id\<close> after the filter on the allowed keys: each key is
  present or not.
\<close>

record menuUpdates =
  u_name :: "string option"
  u_description :: "string option"
  u_price :: "number option"
  u_category :: "string option"
  u_isAvailable :: "bool option"
  u_imageUrl :: "string option"

definition categories :: "string list" where
  "categories = [''Main'', ''Snack'', ''Drink'', ''Beverage'', ''Dessert'']"

text \<open>The validator \<open>isFloat({min: 0})\<close> on a JSON number.\<close>

definition isFloat_min0 :: "number \<Rightarrow> bool" where
  "isFloat_min0 p =
     (case p of Finite a \<Rightarrow> 0 \<le> a | PosInf \<Rightarrow> False | NegInf \<Rightarrow> False | NaN \<Rightarrow> False)"

definition put_validation :: "menuUpdates \<Rightarrow> string list" where
  "put_validation u =
     (case u_price u of
        None \<Rightarrow> []
      | Some p \<Rightarrow> if isFloat_min0 p then [] else [''Price must be a non-negative number''])
     @ (case u_category u of
          None \<Rightarrow> []
        | Some c \<Rightarrow> if c \<in> set categories then [] else [''Invalid category''])"

definition apply_updates :: "menuUpdates \<Rightarrow> menuItem \<Rightarrow> menuItem" where
  "apply_updates u mi =
     mi\<lparr>m_name := (case u_name u of None \<Rightarrow> m_name mi | Some v \<Rightarrow> trim v),
        description := (case u_description u of None \<Rightarrow> description mi | Some v \<Rightarrow> trim v),
        m_price := (case u_price u of None \<Rightarrow> m_price mi | Some v \<Rightarrow> v),
        category := (case u_category u of None \<Rightarrow> category mi | Some v \<Rightarrow> v),
        isAvailable := (case u_isAvailable u of None \<Rightarrow> isAvailable mi | Some v \<Rightarrow> v),
        imageUrl := (case u_imageUrl u of None \<Rightarrow> imageUrl mi | Some v \<Rightarrow> trim v)\<rparr>"

text \<open>
  \<open>findByIdAndUpdate(id, updates, {new: true, runValidators: true})\<close>: the update
  validators reject a \<open>name\<close> that is empty after trimming.
\<close>

definition menu_put :: "objectId \<Rightarrow> menuUpdates \<Rightarrow> db \<Rightarrow> menuItem response \<times> db" where
  "menu_put mid u d =
     (if put_validation u \<noteq> [] then (BadRequestErrors (put_validation u), d)
      else if (case u_name u of None \<Rightarrow> False | Some v \<Rightarrow> trim v = []) then (Rejected, d)
      else
        case menu d mid of
          None \<Rightarrow> (NotFound ''Menu item not found.'', d)
        | Some mi \<Rightarrow>
            (Ok (apply_updates u mi), d\<lparr>menu := (menu d)(mid := Some (apply_updates u mi))\<rparr>))"

definition menu_delete :: "objectId \<Rightarrow> db \<Rightarrow> string response \<times> db" where
  "menu_delete mid d =
     (case menu d mid of
        None \<Rightarrow> (NotFound ''Menu item not found.'', d)
      | Some mi \<Rightarrow> (Ok ''Menu item deleted.'', d\<lparr>menu := (menu d)(mid := None)\<rparr>))"

section \<open>Sequences of requests\<close>

text \<open>
  The requests that write to the database or to the transport. The routes that are not
  modelled one by one (menu creation, the cart routes, the user routes) write to the
  menu, carts and users collections only; \<open>OtherWrite\<close> stands for any of them, through
  its effect: some new content of these three collections.
\<close>

datatype request =
    PostOrder int string "itemRequest list"
  | FromCart int objectId
  | PatchStatus int objectId string
  | MenuPut objectId menuUpdates
  | MenuDelete objectId
  | OtherWrite "objectId \<rightharpoonup> menuItem" "objectId \<rightharpoonup> itemRequest list" "objectId \<rightharpoonup> string"

fun step :: "request \<Rightarrow> db \<times> transport \<Rightarrow> db \<times> transport" where
  "step (PostOrder now cname its) (d, io) = snd (post_order now cname its d io)"
| "step (FromCart now uid) (d, io) = snd (from_cart now uid d io)"
| "step (PatchStatus now oid st) (d, io) = snd (patch_status now oid st d io)"
| "step (MenuPut mid u) (d, io) = (snd (menu_put mid u d), io)"
| "step (MenuDelete mid) (d, io) = (snd (menu_delete mid d), io)"
| "step (OtherWrite m c u) (d, io) = (d\<lparr>menu := m, carts := c, users := u\<rparr>, io)"

text \<open>
  Requests served one after the other, each one to its end before the next one starts.
\<close>

fun run :: "request list \<Rightarrow> db \<times> transport \<Rightarrow> db \<times> transport" where
  "run [] s = s"
| "run (r # rs) s = run rs (step r s)"

text \<open>
  The handlers are asynchronous, so the server may serve another request while one waits
  at an \<open>await\<close>. For the PATCH handler this is made explicit: \<open>PatchRead h\<close> is handler
  \<open>h\<close> up to its read of the order, \<open>PatchWrite h\<close> is the same handler from its save
  on, and between the two the handler holds the document it has read. Any other event
  serves a whole request.
\<close>

datatype event =
    Serve request
  | PatchRead nat objectId string
  | PatchWrite nat int

fun exec_event ::
  "event \<Rightarrow> db \<times> transport \<times> (nat \<rightharpoonup> order) \<Rightarrow> db \<times> transport \<times> (nat \<rightharpoonup> order)" where
  "exec_event (Serve r) (d, io, held) = (fst (step r (d, io)), snd (step r (d, io)), held)"
| "exec_event (PatchRead h oid body_status) (d, io, held) =
     (case patch_read oid body_status d of
        Inl res \<Rightarrow> (d, io, held(h := None))
      | Inr doc \<Rightarrow> (d, io, held(h := Some doc)))"
| "exec_event (PatchWrite h now) (d, io, held) =
     (case held h of
        None \<Rightarrow> (d, io, held)
      | Some doc \<Rightarrow> (fst (snd (patch_write now doc d io)), snd (snd (patch_write now doc d io)),
                     held(h := None)))"

fun exec ::
  "event list \<Rightarrow> db \<times> transport \<times> (nat \<rightharpoonup> order) \<Rightarrow> db \<times> transport \<times> (nat \<rightharpoonup> order)" where
  "exec [] s = s"
| "exec (e # es) s = exec es (exec_event e s)"

text \<open>The clock readings of the requests that ask for a new order, in call order.\<close>

fun creation_times :: "request list \<Rightarrow> int list" where
  "creation_times [] = []"
| "creation_times (PostOrder now cname its # rs) = now # creation_times rs"
| "creation_times (FromCart now uid # rs) = now # creation_times rs"
| "creation_times (r # rs) = creation_times rs"

text \<open>
  A database as the application builds it: the stored orders have pairwise different ids,
  all of them below the next fresh id.
\<close>

definition wf_db :: "db \<Rightarrow> bool" where
  "wf_db d = (distinct (map order_id (orders d)) \<and> (\<forall>x \<in> set (orders d). order_id x < nextId d))"

section \<open>Notions used by the properties\<close>

text \<open>
  The sum of \<open>price * quantity\<close> over line items as the double arithmetic computes it,
  from the left and starting at zero.
\<close>

definition double_total :: "orderItem list \<Rightarrow> number" where
  "double_total its = foldl (\<lambda>acc li. dadd acc (dmul (price li) (quantity li))) (Finite 0) its"

text \<open>The line item is the snapshot of the requested item, taken from the catalog \<open>m\<close>.\<close>

definition is_snapshot :: "(objectId \<rightharpoonup> menuItem) \<Rightarrow> itemRequest \<Rightarrow> orderItem \<Rightarrow> bool" where
  "is_snapshot m r li =
     (case m (req_menuItemId r) of
        None \<Rightarrow> False
      | Some mi \<Rightarrow> li = \<lparr>menuItemId = m_id mi, name = m_name mi,
                           quantity = req_quantity r, price = m_price mi\<rparr>)"



text \<open>
  How a stored order \<open>x\<close> relates to what a later database holds under its id: the same
  id, items, total, creation time, customer and owner, and a status outside the queue if
  the status of \<open>x\<close> was.
\<close>

definition same_order :: "order \<Rightarrow> order \<Rightarrow> bool" where
  "same_order x y = (order_id y = order_id x \<and> items y = items x \<and> totalAmount y = totalAmount x
      \<and> createdAt y = createdAt x \<and> customerName y = customerName x \<and> userId y = userId x
      \<and> (\<not> isActive (status x) \<longrightarrow> \<not> isActive (status y)))"

section \<open>Example data\<close>

definition tea :: menuItem where
  "tea = \<lparr>m_id = 1, m_name = ''Tea'', description = ''hot'', m_price = Finite 50,
          category = ''Drink'', isAvailable = True, imageUrl = []\<rparr>"

definition cake :: menuItem where
  "cake = \<lparr>m_id = 2, m_name = ''Cake'', description = ''sold out'', m_price = Finite (5 / 2),
           category = ''Dessert'', isAvailable = False, imageUrl = []\<rparr>"

text \<open>The double that the literal \<open>0.1\<close> denotes.\<close>

definition tenth :: rat where
  "tenth = 3602879701896397 / 36028797018963968"

definition candy :: menuItem where
  "candy = \<lparr>m_id = 3, m_name = ''Candy'', description = ''sweet'', m_price = Finite tenth,
            category = ''Snack'', isAvailable = True, imageUrl = []\<rparr>"

definition one_tea :: "itemRequest list" where
  "one_tea = [\<lparr>req_menuItemId = 1, req_quantity = Finite 1\<rparr>]"

definition three_candies :: "itemRequest list" where
  "three_candies = [\<lparr>req_menuItemId = 3, req_quantity = Finite 3\<rparr>]"

text \<open>
  A database without orders: three menu items, Ann with two teas in her cart, Bob with a
  tea and the cake that is not available.
\<close>

definition db0 :: db where
  "db0 = \<lparr>orders = [], menu = [1 \<mapsto> tea, 2 \<mapsto> cake, 3 \<mapsto> candy],
          carts = [7 \<mapsto> [\<lparr>req_menuItemId = 1, req_quantity = Finite 2\<rparr>],
                   8 \<mapsto> [\<lparr>req_menuItemId = 1, req_quantity = Finite 1\<rparr>,
                          \<lparr>req_menuItemId = 2, req_quantity = Finite 1\<rparr>]],
          users = [7 \<mapsto> ''Ann'', 8 \<mapsto> ''Bob''], nextId = 1\<rparr>"

definition tea_line :: orderItem where
  "tea_line = \<lparr>menuItemId = 1, name = ''Tea'', quantity = Finite 1, price = Finite 50\<rparr>"

definition orderA :: order where
  "orderA = \<lparr>order_id = 1, userId = None, customerName = ''A'', items = [tea_line],
             totalAmount = Finite 50, status = pending, createdAt = 1000, updatedAt = 1000\<rparr>"

definition orderB :: order where
  "orderB = \<lparr>order_id = 2, userId = None, customerName = ''B'', items = [tea_line],
             totalAmount = Finite 50, status = pending, createdAt = 1000, updatedAt = 1000\<rparr>"

text \<open>The database after \<open>A\<close> and \<open>B\<close> have ordered one tea each, both at clock reading 1000.\<close>

definition db2 :: db where
  "db2 = db0\<lparr>orders := [orderA, orderB], nextId := 3\<rparr>"

definition orderC :: order where
  "orderC = \<lparr>order_id = 3, userId = Some 7, customerName = ''Ann'', items = [tea_line],
             totalAmount = Finite 50, status = pending, createdAt = 1001, updatedAt = 1001\<rparr>"

text \<open>Later: \<open>A\<close> is being prepared, \<open>B\<close> is ready, and Ann has ordered at 1001.\<close>

definition db3 :: db where
  "db3 = db0\<lparr>orders := [orderA\<lparr>status := preparing\<rparr>, orderB\<lparr>status := ready\<rparr>, orderC],
             nextId := 4\<rparr>"

text \<open>The order of \<open>B\<close> is being prepared and is the only one.\<close>

definition db4 :: db where
  "db4 = db0\<lparr>orders := [orderB\<lparr>status := preparing\<rparr>], nextId := 3\<rparr>"

text \<open>A server on which every emit succeeds, and one on which \<open>order:ready\<close> throws.\<close>

definition working :: server where
  "working = \<lparr>sent = [], fails = (\<lambda>m. False)\<rparr>"

definition ready_broken :: server where
  "ready_broken = \<lparr>sent = [], fails = (\<lambda>m. event m = ''order:ready'')\<rparr>"

text \<open>A server on which every emit throws.\<close>

definition all_broken :: server where
  "all_broken = \<lparr>sent = [], fails = (\<lambda>m. True)\<rparr>"

text \<open>Two creations at different clock readings, and two at the same one.\<close>

definition two_orders :: "request list" where
  "two_orders = [PostOrder 1000 ''A'' one_tea, FromCart 1001 7]"

definition same_instant :: "request list" where
  "same_instant = [PostOrder 1000 ''A'' one_tea, PostOrder 1000 ''B'' one_tea]"

text \<open>An attempt to move the ready order \<open>B\<close> back, followed by a new order.\<close>

definition back_to_kitchen :: "request list" where
  "back_to_kitchen = [PatchStatus 1010 2 ''preparing'', PostOrder 1011 ''D'' one_tea]"

text \<open>
  Three PATCH requests for order 1: handler 0 reads the pending order, two other requests
  move the order to preparing and to ready, and only then handler 0 saves.
\<close>

definition stale_save :: "event list" where
  "stale_save =
     [PatchRead 0 1 ''preparing'',
      Serve (PatchStatus 1001 1 ''preparing''),
      Serve (PatchStatus 1002 1 ''ready''),
      PatchWrite 0 1003]"

text \<open>A price change and a deletion in the catalog.\<close>

definition price_change :: "request list" where
  "price_change =
     [MenuPut 1 \<lparr>u_name = None, u_description = None, u_price = Some (Finite 75),
                 u_category = None, u_isAvailable = None, u_imageUrl = None\<rparr>,
      MenuDelete 1]"

text \<open>A database with 201 orders of Ann.\<close>

definition crowd :: db where
  "crowd = db0\<lparr>orders := map (\<lambda>i. orderC\<lparr>order_id := i\<rparr>) [1..<202], nextId := 202\<rparr>"

lemmas example_defs = db0_def db2_def db3_def db4_def orderA_def orderB_def orderC_def
  tea_line_def tea_def cake_def candy_def one_tea_def three_candies_def

section \<open>Rounding to a double\<close>

text \<open>Powers of two.\<close>

lemma pow2_power_int: "pow2 e = power_int 2 e"
  by (simp add: pow2_def power_int_def power_one_over inverse_eq_divide)

lemma pow2_pos: "0 < pow2 e"
  by (simp add: pow2_power_int)

lemma pow2_add1: "pow2 (e + 1) = 2 * pow2 e"
  by (simp add: pow2_power_int power_int_add)

lemma pow2_less_iff: "pow2 a < pow2 b \<longleftrightarrow> a < b"
proof
  assume l: "pow2 a < pow2 b"
  show "a < b"
  proof (rule ccontr)
    assume "\<not> a < b"
    then have "b \<le> a" by simp
    then have "(2::rat) powi b \<le> 2 powi a" by (intro power_int_increasing) simp_all
    with l show False by (simp add: pow2_power_int)
  qed
next
  assume "a < b"
  then show "pow2 a < pow2 b" by (simp add: pow2_power_int power_int_strict_increasing)
qed

text \<open>The exponent \<open>ilog2\<close> finds is the one whose power of two is just below.\<close>

lemma ilog2_unique: "pow2 k \<le> x \<Longrightarrow> x < pow2 (k + 1) \<Longrightarrow> ilog2 x = k"
proof (induction x arbitrary: k rule: ilog2.induct)
  case (1 x)
  from "1.prems"(1) pow2_pos[of k] have pos: "0 < x" by simp
  show ?case
  proof (cases "2 \<le> x")
    case True
    have a: "pow2 (k - 1) \<le> x / 2" using "1.prems"(1) pow2_add1[of "k - 1"] by simp
    have b: "x / 2 < pow2 (k - 1 + 1)" using "1.prems"(2) pow2_add1[of k] by simp
    from "1.IH"(1)[OF _ True a b] pos have "ilog2 (x / 2) = k - 1" by simp
    with True pos show ?thesis by (subst ilog2.simps) simp
  next
    case False
    show ?thesis
    proof (cases "x < 1")
      case True
      have a: "pow2 (k + 1) \<le> x * 2" using "1.prems"(1) pow2_add1[of k] by simp
      have b: "x * 2 < pow2 (k + 1 + 1)" using "1.prems"(2) pow2_add1[of "k + 1"] by simp
      from "1.IH"(2)[OF _ False True a b] pos have "ilog2 (x * 2) = k + 1" by simp
      with True False pos show ?thesis by (subst ilog2.simps) simp
    next
      case g: False
      have "pow2 k < pow2 1" using "1.prems"(1) False by (simp add: pow2_def)
      then have "k < 1" by (simp only: pow2_less_iff)
      moreover have "pow2 0 < pow2 (k + 1)" using "1.prems"(2) g by (simp add: pow2_def)
      then have "0 < k + 1" by (simp only: pow2_less_iff)
      ultimately have "k = 0" by simp
      with g False pos show ?thesis by (subst ilog2.simps) simp
    qed
  qed
qed

text \<open>
  The double of a positive rational between \<open>2 ^ k\<close> and \<open>2 ^ (k + 1)\<close>, in the normal
  range and far from overflow, from the rounding of its significand.
\<close>

lemma below_pow2_1024: "y \<le> 1024 \<Longrightarrow> y < pow2 1024"
proof -
  assume "y \<le> 1024"
  also have "(1024 :: rat) = pow2 10" by (simp add: pow2_def)
  also have "pow2 10 < pow2 1024" by (simp only: pow2_less_iff)
  finally show ?thesis .
qed

lemma fl_between:
  assumes "pow2 k \<le> x" and "x < pow2 (k + 1)" and "- 1022 \<le> k"
      and "round_half_even (x / pow2 (k - 52)) = n" and "of_int n * pow2 (k - 52) \<le> 1024"
  shows "fl x = Finite (of_int n * pow2 (k - 52))"
proof -
  from assms(1) pow2_pos[of k] have pos: "0 < x" by simp
  have i: "ilog2 x = k" using assms(1,2) by (rule ilog2_unique)
  have m: "max (k - 52) (- 1074) = k - 52" using assms(3) by simp
  have "\<not> pow2 1024 \<le> of_int n * pow2 (k - 52)"
    using below_pow2_1024[OF assms(5)] by simp
  with pos i m assms(4) show ?thesis by (simp add: fl_def Let_def)
qed

text \<open>A tie goes to the even neighbour.\<close>

lemma round_tie: "round_half_even (of_int n + 1 / 2) = (if even n then n else n + 1)"
proof -
  have "\<lfloor>of_int n + 1 / 2 :: rat\<rfloor> = n" by (rule floor_unique) simp_all
  then show ?thesis by (simp add: round_half_even_def Let_def)
qed

text \<open>The amounts of the example data.\<close>

lemma fl_50: "fl 50 = Finite 50"
  using fl_between[where k=5 and x=50 and n=7036874417766400]
  by (simp add: pow2_def round_half_even_def Let_def)

lemma fl_100: "fl 100 = Finite 100"
  using fl_between[where k=6 and x=100 and n=7036874417766400]
  by (simp add: pow2_def round_half_even_def Let_def)

lemma fl_3_tenths:
  "fl (tenth * 3) = Finite (1351079888211149 / 4503599627370496)"
proof -
  have "tenth * 3 / pow2 (- 2 - 52) = of_int 5404319552844595 + 1 / 2"
    by (simp add: pow2_def tenth_def)
  then have "round_half_even (tenth * 3 / pow2 (- 2 - 52)) = 5404319552844596"
    by (simp only: round_tie) simp
  from fl_between[where k="- 2" and x="tenth * 3", OF _ _ _ this]
  show ?thesis by (simp add: pow2_def tenth_def)
qed

lemma tea_amounts:
  "dmul (Finite 50) (Finite 1) = Finite 50"
  "dadd (Finite 0) (Finite 50) = Finite 50"
  "dmul (Finite 50) (Finite 2) = Finite 100"
  "dadd (Finite 0) (Finite 100) = Finite 100"
  by (simp_all add: dmul.simps dadd.simps fl_50 fl_100)

lemma candy_amounts:
  "dmul (Finite tenth) (Finite 3) = Finite (1351079888211149 / 4503599627370496)"
  by (simp add: dmul.simps fl_3_tenths)

lemma fl_fl_3_tenths:
  "fl (1351079888211149 / 4503599627370496) = Finite (1351079888211149 / 4503599627370496)"
  using fl_between[where k="- 2" and x="1351079888211149 / 4503599627370496"
      and n=5404319552844596]
  by (simp add: pow2_def round_half_even_def Let_def)

lemma candy_total:
  "dadd (Finite 0) (Finite (1351079888211149 / 4503599627370496))
     = Finite (1351079888211149 / 4503599627370496)"
  "(1351079888211149 / 4503599627370496 :: rat) \<noteq> tenth * 3"
  by (simp_all add: dadd.simps fl_fl_3_tenths tenth_def)

lemma whole_quantities: "isInt_min1 (Finite 1)" "isInt_min1 (Finite 2)" "isInt_min1 (Finite 3)"
  by (simp_all add: isInt_min1_def)

lemma at_least_examples:
  "at_least 1 (Finite 1)" "at_least 1 (Finite 2)" "at_least 1 (Finite 3)"
  by (simp_all add: at_least_def)

section \<open>Lookup and replacement of a stored order\<close>

lemma findById_Some_id: "findById os i = Some x \<Longrightarrow> order_id x = i"
  unfolding findById_def by (induction os) (auto split: if_splits)

lemma findById_Some_mem: "findById os i = Some x \<Longrightarrow> x \<in> set os"
  unfolding findById_def by (induction os) (auto split: if_splits)

lemma findById_replace:
  "findById os i = Some x \<Longrightarrow> order_id y = i \<Longrightarrow>
     findById (map (\<lambda>x. if order_id x = i then y else x) os) i = Some y"
  unfolding findById_def by (induction os) (auto split: if_splits)

section \<open>What a handler can do to the database\<close>

lemma Order_create_Some:
  "Order_create now uid cname its amount d = Some (ord, d') \<Longrightarrow>
     d' = d\<lparr>orders := orders d @ [ord], nextId := Suc (nextId d)\<rparr>
     \<and> order_id ord = nextId d \<and> createdAt ord = now \<and> status ord = pending
     \<and> userId ord = uid \<and> items ord = its \<and> totalAmount ord = amount"
  by (auto simp: Order_create_def Let_def split: if_splits)

lemma post_order_cases:
  assumes "post_order now cname its d io = (res, d', io')"
  shows "(d' = d \<and> io' = io \<and> (\<forall>x. res \<noteq> Created x))
    \<or> (\<exists>ord. res = Created (ord, getQueuePosition d' ord)
          \<and> d' = d\<lparr>orders := orders d @ [ord], nextId := Suc (nextId d)\<rparr>
          \<and> io' = emitQueueUpdate d' io
          \<and> order_id ord = nextId d \<and> createdAt ord = now \<and> status ord = pending
          \<and> its \<noteq> []
          \<and> build_items post_missing post_unavailable (menu d) its [] (Finite 0)
                = Inr (items ord, totalAmount ord))"
proof (cases "post_validation cname its = []")
  case False
  with assms show ?thesis by (auto simp: post_order_def)
next
  case True
  then have ne: "its \<noteq> []" by (auto simp: post_validation_def split: if_splits)
  show ?thesis
  proof (cases "build_items post_missing post_unavailable (menu d) its [] (Finite 0)")
    case (Inl msg)
    with assms True show ?thesis by (auto simp: post_order_def)
  next
    case (Inr p)
    obtain its' amount where p: "p = (its', amount)" by (cases p)
    show ?thesis
    proof (cases "Order_create now None (trim cname) its' amount d")
      case None
      with assms True Inr p show ?thesis by (auto simp: post_order_def)
    next
      case (Some q)
      obtain ord d1 where q: "q = (ord, d1)" by (cases q)
      from Order_create_Some[OF Some[unfolded q]] assms True Inr p Some q ne
      show ?thesis by (auto simp: post_order_def)
    qed
  qed
qed

lemma from_cart_cases:
  assumes "from_cart now uid d io = (res, d', io')"
  shows "(d' = d \<and> io' = io \<and> (\<forall>x. res \<noteq> Created x))
    \<or> (\<exists>ord cart_items. res = Created (ord, getQueuePosition (d'\<lparr>carts := carts d\<rparr>) ord)
          \<and> d' = d\<lparr>orders := orders d @ [ord], nextId := Suc (nextId d),
                    carts := (carts d)(uid := Some [])\<rparr>
          \<and> io' = emitQueueUpdate d' io
          \<and> order_id ord = nextId d \<and> createdAt ord = now \<and> status ord = pending
          \<and> carts d uid = Some cart_items \<and> cart_items \<noteq> []
          \<and> build_items cart_missing cart_unavailable (menu d) cart_items []
                (Finite 0)
                = Inr (items ord, totalAmount ord))"
proof (cases "users d uid")
  case None
  with assms show ?thesis by (auto simp: from_cart_def)
next
  case (Some uname)
  note u = this
  show ?thesis
  proof (cases "carts d uid")
    case None
    with assms u show ?thesis by (auto simp: from_cart_def)
  next
    case (Some cart_items)
    note c = this
    show ?thesis
    proof (cases "cart_items = []")
      case True
      with assms u c show ?thesis by (auto simp: from_cart_def)
    next
      case False
      note ne = this
      show ?thesis
      proof (cases "build_items cart_missing cart_unavailable (menu d) cart_items [] (Finite 0)")
        case (Inl msg)
        with assms u c ne show ?thesis by (auto simp: from_cart_def)
      next
        case (Inr p)
        obtain its' amount where p: "p = (its', amount)" by (cases p)
        show ?thesis
        proof (cases "Order_create now (Some uid) uname its' amount d")
          case None
          with assms u c ne Inr p show ?thesis by (auto simp: from_cart_def)
        next
          case (Some q)
          obtain ord d1 where q: "q = (ord, d1)" by (cases q)
          from Order_create_Some[OF Some[unfolded q]] assms u c ne Inr p Some q
          show ?thesis by (auto simp: from_cart_def Let_def getQueuePosition_def)
        qed
      qed
    qed
  qed
qed

lemma patch_read_Inr:
  "patch_read oid s d = Inr held \<Longrightarrow>
     \<exists>ord b. findById (orders d) oid = Some ord \<and> parse_status s = Some b
            \<and> b \<in> set (VALID_TRANSITIONS (status ord)) \<and> held = ord\<lparr>status := b\<rparr>"
  by (auto simp: patch_read_def Let_def split: option.splits if_splits)

lemma patch_write_db: "fst (snd (patch_write now held d io)) = save d (held\<lparr>updatedAt := now\<rparr>)"
  by (simp add: patch_write_def Let_def split_beta)

lemma patch_status_cases:
  assumes "patch_status now oid s d io = (res, d', io')"
  shows "(d' = d \<and> io' = io \<and> (\<forall>x. res \<noteq> Ok x))
    \<or> (\<exists>ord b. findById (orders d) oid = Some ord \<and> parse_status s = Some b
          \<and> b \<in> set (VALID_TRANSITIONS (status ord))
          \<and> d' = save d (ord\<lparr>status := b, updatedAt := now\<rparr>))"
proof (cases "patch_read oid s d")
  case (Inl r)
  then have "\<forall>x. r \<noteq> Ok x"
    by (auto simp: patch_read_def Let_def split: option.splits if_splits)
  with assms Inl show ?thesis by (auto simp: patch_status_def)
next
  case (Inr held)
  from patch_read_Inr[OF Inr] obtain ord b where
    f: "findById (orders d) oid = Some ord" "parse_status s = Some b"
       "b \<in> set (VALID_TRANSITIONS (status ord))" and h: "held = ord\<lparr>status := b\<rparr>" by blast
  from assms Inr have "d' = fst (snd (patch_write now held d io))"
    by (simp add: patch_status_def)
  with h have "d' = save d (ord\<lparr>status := b, updatedAt := now\<rparr>)"
    by (simp add: patch_write_db)
  with f show ?thesis by blast
qed

section \<open>Invariants of request sequences\<close>

lemma findById_append:
  "findById os i = Some x \<Longrightarrow> findById (os @ ys) i = Some x"
  unfolding findById_def by (induction os) (auto split: if_splits)

lemma findById_replace_other:
  "i \<noteq> j \<Longrightarrow> order_id y = j \<Longrightarrow>
     findById (map (\<lambda>x. if order_id x = j then y else x) os) i = findById os i"
  unfolding findById_def by (induction os) (auto split: if_splits)

lemma menu_put_orders: "orders (snd (menu_put mid u d)) = orders d \<and> nextId (snd (menu_put mid u d)) = nextId d"
  by (simp add: menu_put_def split: option.splits)

lemma menu_delete_orders: "orders (snd (menu_delete mid d)) = orders d \<and> nextId (snd (menu_delete mid d)) = nextId d"
  by (simp add: menu_delete_def split: option.splits)

text \<open>What one request does to the orders collection.\<close>

lemma step_orders:
  assumes "step r (d, io) = (d', io')"
  shows "(orders d' = orders d \<and> nextId d' = nextId d)
     \<or> (\<exists>ord. orders d' = orders d @ [ord] \<and> nextId d' = Suc (nextId d)
            \<and> order_id ord = nextId d \<and> status ord = pending
            \<and> creation_times [r] = [createdAt ord])
     \<or> (\<exists>ord b now. findById (orders d) (order_id ord) = Some ord
            \<and> b \<in> set (VALID_TRANSITIONS (status ord))
            \<and> orders d' = map (\<lambda>x. if order_id x = order_id ord
                                     then ord\<lparr>status := b, updatedAt := now\<rparr> else x) (orders d)
            \<and> nextId d' = nextId d)"
proof (cases r)
  case (PostOrder now cname its)
  obtain res where "post_order now cname its d io = (res, d', io')"
    using assms PostOrder by (cases "post_order now cname its d io") auto
  from post_order_cases[OF this] PostOrder show ?thesis by auto
next
  case (FromCart now uid)
  obtain res where "from_cart now uid d io = (res, d', io')"
    using assms FromCart by (cases "from_cart now uid d io") auto
  from from_cart_cases[OF this] FromCart show ?thesis by auto
next
  case (PatchStatus now oid s)
  obtain res where "patch_status now oid s d io = (res, d', io')"
    using assms PatchStatus by (cases "patch_status now oid s d io") auto
  from patch_status_cases[OF this] show ?thesis
  proof
    assume "d' = d \<and> io' = io \<and> (\<forall>x. res \<noteq> Ok x)"
    then show ?thesis by simp
  next
    assume "\<exists>ord b. findById (orders d) oid = Some ord \<and> parse_status s = Some b
          \<and> b \<in> set (VALID_TRANSITIONS (status ord))
          \<and> d' = save d (ord\<lparr>status := b, updatedAt := now\<rparr>)"
    then obtain ord b where f: "findById (orders d) oid = Some ord"
      and b: "b \<in> set (VALID_TRANSITIONS (status ord))"
      and d': "d' = save d (ord\<lparr>status := b, updatedAt := now\<rparr>)" by blast
    have i: "order_id ord = oid" using f by (rule findById_Some_id)
    have "findById (orders d) (order_id ord) = Some ord
            \<and> b \<in> set (VALID_TRANSITIONS (status ord))
            \<and> orders d' = map (\<lambda>x. if order_id x = order_id ord
                                     then ord\<lparr>status := b, updatedAt := now\<rparr> else x) (orders d)
            \<and> nextId d' = nextId d"
      using f b d' i by (simp add: save_def)
    then show ?thesis by blast
  qed
next
  case (MenuPut mid u)
  with assms menu_put_orders[of mid u d] show ?thesis by auto
next
  case (MenuDelete mid)
  with assms menu_delete_orders[of mid d] show ?thesis by auto
next
  case (OtherWrite m c u)
  with assms show ?thesis by auto
qed


lemma same_id_same_order:
  "distinct (map order_id os) \<Longrightarrow> x \<in> set os \<Longrightarrow> y \<in> set os \<Longrightarrow>
     order_id x = order_id y \<Longrightarrow> x = y"
  by (meson distinct_map inj_on_def)

lemma replace_ids:
  "order_id y = i \<Longrightarrow> map order_id (map (\<lambda>x. if order_id x = i then y else x) os) = map order_id os"
  by (induction os) auto

lemma replace_createdAt:
  "distinct (map order_id os) \<Longrightarrow> findById os (order_id ord) = Some ord \<Longrightarrow>
   createdAt y = createdAt ord \<Longrightarrow>
     map createdAt (map (\<lambda>x. if order_id x = order_id ord then y else x) os) = map createdAt os"
proof -
  assume d: "distinct (map order_id os)" and f: "findById os (order_id ord) = Some ord"
     and c: "createdAt y = createdAt ord"
  have m: "ord \<in> set os" using f by (rule findById_Some_mem)
  have "\<And>x. x \<in> set os \<Longrightarrow> order_id x = order_id ord \<Longrightarrow> x = ord"
    using d m by (blast intro: same_id_same_order)
  with c show ?thesis by (auto intro!: map_cong)
qed

lemma wf_db_ids:
  "wf_db d = (distinct (map order_id (orders d))
               \<and> (\<forall>i \<in> set (map order_id (orders d)). i < nextId d))"
  by (auto simp: wf_db_def)

lemma step_wf:
  assumes "step r (d, io) = (d', io')" and "wf_db d"
  shows "wf_db d'"
  using step_orders[OF assms(1)]
proof (elim disjE exE conjE)
  assume "orders d' = orders d" "nextId d' = nextId d"
  with assms(2) show ?thesis by (simp add: wf_db_def)
next
  fix ord
  assume "orders d' = orders d @ [ord]" "nextId d' = Suc (nextId d)" "order_id ord = nextId d"
  with assms(2) show ?thesis by (auto simp: wf_db_def less_Suc_eq)
next
  fix ord b now
  assume o: "orders d' = map (\<lambda>x. if order_id x = order_id ord
                  then ord\<lparr>status := b, updatedAt := now\<rparr> else x) (orders d)"
    and n: "nextId d' = nextId d"
  have "map order_id (orders d') = map order_id (orders d)"
    unfolding o by (rule replace_ids) simp
  with assms(2) n show ?thesis by (simp add: wf_db_ids)
qed

lemma step_createdAt:
  assumes "step r (d, io) = (d', io')" and "wf_db d"
  shows "\<exists>ts. subseq ts (creation_times [r])
           \<and> map createdAt (orders d') = map createdAt (orders d) @ ts"
  using step_orders[OF assms(1)]
proof (elim disjE exE conjE)
  assume "orders d' = orders d"
  then have "subseq [] (creation_times [r])
           \<and> map createdAt (orders d') = map createdAt (orders d) @ []" by simp
  then show ?thesis by blast
next
  fix ord
  assume "orders d' = orders d @ [ord]" "creation_times [r] = [createdAt ord]"
  then have "subseq [createdAt ord] (creation_times [r])
           \<and> map createdAt (orders d') = map createdAt (orders d) @ [createdAt ord]" by simp
  then show ?thesis by blast
next
  fix ord b now
  assume o: "orders d' = map (\<lambda>x. if order_id x = order_id ord
                  then ord\<lparr>status := b, updatedAt := now\<rparr> else x) (orders d)"
    and f: "findById (orders d) (order_id ord) = Some ord"
  from assms(2) have "distinct (map order_id (orders d))" by (simp add: wf_db_def)
  from replace_createdAt[OF this f, of "ord\<lparr>status := b, updatedAt := now\<rparr>"] o
  have "subseq [] (creation_times [r])
           \<and> map createdAt (orders d') = map createdAt (orders d) @ []" by simp
  then show ?thesis by blast
qed

lemma inactive_successor: "\<not> isActive a \<Longrightarrow> b \<in> set (VALID_TRANSITIONS a) \<Longrightarrow> \<not> isActive b"
  by (cases a; cases b) (simp_all add: isActive_def)

lemma step_stored:
  assumes "step r (d, io) = (d', io')" and "findById (orders d) oid = Some x"
  shows "\<exists>y. findById (orders d') oid = Some y \<and> same_order x y"
  using step_orders[OF assms(1)]
proof (elim disjE exE conjE)
  assume "orders d' = orders d"
  with assms(2) show ?thesis by (simp add: same_order_def)
next
  fix ord
  assume "orders d' = orders d @ [ord]"
  with assms(2) show ?thesis by (simp add: findById_append same_order_def)
next
  fix ord b now
  assume o: "orders d' = map (\<lambda>x. if order_id x = order_id ord
                  then ord\<lparr>status := b, updatedAt := now\<rparr> else x) (orders d)"
    and f: "findById (orders d) (order_id ord) = Some ord"
    and b: "b \<in> set (VALID_TRANSITIONS (status ord))"
  show ?thesis
  proof (cases "oid = order_id ord")
    case True
    with f assms(2) have "x = ord" by simp
    moreover have "findById (orders d') oid = Some (ord\<lparr>status := b, updatedAt := now\<rparr>)"
      unfolding o True by (rule findById_replace[OF f]) simp
    ultimately show ?thesis using b by (auto simp: same_order_def dest: inactive_successor)
  next
    case False
    then have "findById (orders d') oid = findById (orders d) oid"
      unfolding o by (intro findById_replace_other) simp_all
    with assms(2) show ?thesis by (simp add: same_order_def)
  qed
qed

lemma same_order_trans: "same_order x y \<Longrightarrow> same_order y z \<Longrightarrow> same_order x z"
  by (auto simp: same_order_def)

lemma creation_times_Cons: "creation_times (r # rs) = creation_times [r] @ creation_times rs"
  by (cases r) simp_all

lemma run_wf: "run rs (d, io) = (d', io') \<Longrightarrow> wf_db d \<Longrightarrow> wf_db d'"
proof (induction rs arbitrary: d io)
  case Nil
  then show ?case by simp
next
  case (Cons r rs)
  obtain d1 io1 where s: "step r (d, io) = (d1, io1)" by (cases "step r (d, io)")
  with Cons.prems step_wf[OF s] Cons.IH[of d1 io1] show ?case by simp
qed

lemma run_createdAt:
  "run rs (d, io) = (d', io') \<Longrightarrow> wf_db d \<Longrightarrow>
     \<exists>ts. subseq ts (creation_times rs) \<and> map createdAt (orders d') = map createdAt (orders d) @ ts"
proof (induction rs arbitrary: d io)
  case Nil
  then show ?case by simp
next
  case (Cons r rs)
  obtain d1 io1 where s: "step r (d, io) = (d1, io1)" by (cases "step r (d, io)")
  from step_createdAt[OF s Cons.prems(2)] obtain ts1 where
    t1: "subseq ts1 (creation_times [r])" and
    m1: "map createdAt (orders d1) = map createdAt (orders d) @ ts1" by blast
  from Cons.prems s have "run rs (d1, io1) = (d', io')" by simp
  from Cons.IH[OF this step_wf[OF s Cons.prems(2)]] obtain ts2 where
    t2: "subseq ts2 (creation_times rs)" and
    m2: "map createdAt (orders d') = map createdAt (orders d1) @ ts2" by blast
  from t1 t2 have "subseq (ts1 @ ts2) (creation_times (r # rs))"
    unfolding creation_times_Cons[of r rs] by (rule list_emb_append_mono)
  moreover from m1 m2 have "map createdAt (orders d') = map createdAt (orders d) @ (ts1 @ ts2)"
    by simp
  ultimately show ?case by blast
qed

lemma run_stored:
  "run rs (d, io) = (d', io') \<Longrightarrow> findById (orders d) oid = Some x \<Longrightarrow>
     \<exists>y. findById (orders d') oid = Some y \<and> same_order x y"
proof (induction rs arbitrary: d io x)
  case Nil
  then show ?case by (simp add: same_order_def)
next
  case (Cons r rs)
  obtain d1 io1 where s: "step r (d, io) = (d1, io1)" by (cases "step r (d, io)")
  from step_stored[OF s Cons.prems(2)] obtain y where
    y: "findById (orders d1) oid = Some y" "same_order x y" by blast
  from Cons.prems s have "run rs (d1, io1) = (d', io')" by simp
  from Cons.IH[OF this y(1)] y(2) show ?case by (blast intro: same_order_trans)
qed

lemma subseq_sorted_wrt: "subseq xs ys \<Longrightarrow> sorted_wrt R ys \<Longrightarrow> sorted_wrt R xs"
  by (induction rule: list_emb.induct) (auto dest: list_emb_set)

section \<open>Emits\<close>

lemma emit_all_takeWhile:
  "emit_all ms srv = (srv\<lparr>sent := sent srv @ takeWhile (\<lambda>m. \<not> fails srv m) ms\<rparr>,
                      \<exists>m \<in> set ms. fails srv m)"
proof (induction ms arbitrary: srv)
  case Nil
  then show ?case by simp
next
  case (Cons m ms)
  show ?case
  proof (cases "fails srv m")
    case True
    then show ?thesis by (simp add: emit_def)
  next
    case False
    with Cons[of "srv\<lparr>sent := sent srv @ [m]\<rparr>"] show ?thesis by (simp add: emit_def)
  qed
qed

lemma emitQueueUpdate_Some:
  "emitQueueUpdate d (Some srv)
     = Some (srv\<lparr>sent := sent srv @ takeWhile (\<lambda>m. \<not> fails srv m) (snapshot_messages d)\<rparr>)"
  by (simp add: emitQueueUpdate_def emit_all_takeWhile)

lemma emitOrderReady_Some:
  "emitOrderReady oid (Some srv)
     = (Some (srv\<lparr>sent := sent srv @ takeWhile (\<lambda>m. \<not> fails srv m) (ready_messages oid)\<rparr>),
        \<exists>m \<in> set (ready_messages oid). fails srv m)"
  by (simp add: emitOrderReady_def emit_all_takeWhile)

lemma snapshot_events:
  "m \<in> set (snapshot_messages d) \<Longrightarrow>
     event m = ''queue:update'' \<and> chan m = Global
     \<or> event m = ''queue:position'' \<and> (\<exists>i. chan m = OrderRoom i)
     \<or> event m = ''kitchen:queue'' \<and> chan m = Kitchen"
  by (auto simp: snapshot_messages_def Let_def position_message_def)

section \<open>The status state machine\<close>

lemma successor_table:
  "b \<in> set (VALID_TRANSITIONS a) \<longleftrightarrow>
     (a, b) \<in> {(pending, preparing), (preparing, ready), (ready, completed)}"
  by (cases a; cases b) simp_all

lemma allowed_text:
  "(if join '', '' (map status_name (VALID_TRANSITIONS a)) = [] then ''none (order is completed)''
    else join '', '' (map status_name (VALID_TRANSITIONS a)))
   = (case a of pending \<Rightarrow> ''preparing'' | preparing \<Rightarrow> ''ready''
      | ready \<Rightarrow> ''completed'' | completed \<Rightarrow> ''none (order is completed)'')"
  by (cases a) simp_all

text \<open>
  Claim C3, as the code has it. For a stored order and a request whose status passes the
  validator, the PATCH handler applies the transition exactly when the pair (current,
  requested) is in the table pending \<open>\<rightarrow>\<close> preparing, preparing \<open>\<rightarrow>\<close> ready,
  ready \<open>\<rightarrow>\<close> completed. The database then holds the order with the requested status
  under the id, and the response is that order; the one exception is a transition to ready
  during which \<open>emitOrderReady\<close> throws: the status is set all the same, and the handler
  ends without a response. For every other pair the handler answers 400 with a message
  that names the current status and the legal next statuses (the text
  \<open>none (order is completed)\<close> when there is none), and neither the database nor the
  transport changes.
\<close>

theorem status_transition:
  assumes "findById (orders d) oid = Some ord" and "parse_status s = Some b"
  shows "case patch_status now oid s d io of (res, d', io') \<Rightarrow>
     (if (status ord, b) \<in> {(pending, preparing), (preparing, ready), (ready, completed)}
      then findById (orders d') oid = Some (ord\<lparr>status := b, updatedAt := now\<rparr>)
         \<and> res = (if b = ready \<and> snd (emitOrderReady oid io) then Rejected
                  else Ok (ord\<lparr>status := b, updatedAt := now\<rparr>))
      else res = BadRequest
            (''Cannot transition from '' @ dquote @ status_name (status ord) @ dquote
             @ '' to '' @ dquote @ status_name b @ dquote @ ''. Allowed next status: ''
             @ (case status ord of pending \<Rightarrow> ''preparing'' | preparing \<Rightarrow> ''ready''
                | ready \<Rightarrow> ''completed'' | completed \<Rightarrow> ''none (order is completed)''))
         \<and> d' = d \<and> io' = io)"
proof (cases "b \<in> set (VALID_TRANSITIONS (status ord))")
  case True
  have i: "order_id ord = oid" using assms(1) by (rule findById_Some_id)
  from True assms i show ?thesis
    unfolding successor_table[symmetric]
    by (simp add: patch_status_def patch_read_def patch_write_def Let_def save_def
        findById_replace split_beta)
next
  case False
  with assms show ?thesis
    unfolding successor_table[symmetric]
    by (simp add: patch_status_def patch_read_def Let_def transition_message_def allowed_text
             del: VALID_TRANSITIONS.simps)
qed

theorem status_transition_witness:
  "findById (orders db2) 1 = Some orderA \<and> parse_status ''preparing'' = Some preparing
   \<and> fst (patch_status 1005 1 ''preparing'' db2 (Some all_broken))
       = Ok (orderA\<lparr>status := preparing, updatedAt := 1005\<rparr>)"
proof -
  have h1: "findById (orders db2) 1 = Some orderA"
    by (simp add: db2_def findById_def orderA_def)
  have h2: "parse_status ''preparing'' = Some preparing"
    by (simp add: parse_status_def)
  from status_transition[OF h1 h2, of 1005 "Some all_broken"]
  have "fst (patch_status 1005 1 ''preparing'' db2 (Some all_broken))
          = Ok (orderA\<lparr>status := preparing, updatedAt := 1005\<rparr>)"
    by (simp add: split_beta orderA_def)
  with h1 h2 show ?thesis by simp
qed

text \<open>
  The order of \<open>B\<close> is moved from preparing to ready on a server whose \<open>order:ready\<close>
  emit throws: the pair is in the table and the order is stored as ready, but the handler
  does not return it.
\<close>

theorem transition_publish_throws:
  "findById (orders db4) 2 = Some (orderB\<lparr>status := preparing\<rparr>)
   \<and> fst (patch_status 1010 2 ''ready'' db4 (Some ready_broken)) = Rejected
   \<and> findById (orders (fst (snd (patch_status 1010 2 ''ready'' db4 (Some ready_broken))))) 2
       = Some (orderB\<lparr>status := ready, updatedAt := 1010\<rparr>)"
  by (simp add: patch_status_def patch_read_def patch_write_def parse_status_def findById_def
      save_def emitOrderReady_Some ready_messages_def ready_broken_def example_defs Let_def)

section \<open>Queue positions\<close>

lemma queueData_length: "length (queueData os) = length os"
  by (simp add: queueData_def)

lemma queueData_nth:
  "i < length os \<Longrightarrow> queueData os ! i =
     \<lparr>orderId = order_id (os ! i), q_status = status (os ! i),
      q_customerName = customerName (os ! i), queuePosition = i + 1\<rparr>"
  by (simp add: queueData_def nth_enumerate_eq)

lemma queueData_positions: "map queuePosition (queueData os) = [1..<Suc (length os)]"
  by (rule nth_equalityI) (simp_all add: queueData_length queueData_nth del: upt_Suc)

lemma queueData_ids: "map orderId (queueData os) = map order_id os"
  by (rule nth_equalityI) (simp_all add: queueData_length queueData_nth)

text \<open>In a list strictly ascending by key, the elements below the one at index \<open>i\<close> are
  the first \<open>i\<close>.\<close>

lemma filter_less_take:
  "sorted_wrt (<) (map (key :: 'a \<Rightarrow> 'b::linorder) xs) \<Longrightarrow> i < length xs \<Longrightarrow>
     filter (\<lambda>x. key x < key (xs ! i)) xs = take i xs"
proof (induction xs arbitrary: i)
  case Nil
  then show ?case by simp
next
  case (Cons x xs)
  show ?case
  proof (cases i)
    case 0
    with Cons.prems show ?thesis by (auto simp: filter_empty_conv)
  next
    case (Suc j)
    with Cons show ?thesis by auto
  qed
qed

lemma count_before_active:
  "length (filter (\<lambda>x. createdAt x < c) (activeOrders d))
     = length (filter (\<lambda>x. isActive (status x) \<and> createdAt x < c) (orders d))"
  by (simp add: activeOrders_def filter_sort)

lemma sorted_activeOrders: "sorted (map createdAt (activeOrders d))"
  by (simp add: activeOrders_def)

lemma set_activeOrders: "set (activeOrders d) = {x \<in> set (orders d). isActive (status x)}"
  by (auto simp add: activeOrders_def)


text \<open>
  Claim C2, as the code has it. The ordering key is \<open>createdAt\<close>. For every order,
  \<open>getQueuePosition\<close> is 1 plus the number of active orders whose \<open>createdAt\<close> is
  strictly less. The positions of one snapshot of \<open>emitQueueUpdate\<close> are exactly
  1, 2, ..., |O| in list order. When the \<open>createdAt\<close> values of the active orders are
  pairwise different, the two agree on every active order, so that the positions
  \<open>getQueuePosition\<close> computes across the active set are exactly 1 .. |O| as well.
\<close>

theorem queue_positions:
  "getQueuePosition d ord
     = 1 + length (filter (\<lambda>x. createdAt x < createdAt ord) (activeOrders d))
   \<and> map queuePosition (queueData (activeOrders d)) = [1..<Suc (length (activeOrders d))]
   \<and> (distinct (map createdAt (activeOrders d)) \<longrightarrow>
        map (getQueuePosition d) (activeOrders d)
          = map queuePosition (queueData (activeOrders d)))"
proof (intro conjI impI)
  show a: "getQueuePosition d ord
      = 1 + length (filter (\<lambda>x. createdAt x < createdAt ord) (activeOrders d))" for ord
    by (simp add: getQueuePosition_def count_before_active)
  show "map queuePosition (queueData (activeOrders d)) = [1..<Suc (length (activeOrders d))]"
    by (rule queueData_positions)
  assume dist: "distinct (map createdAt (activeOrders d))"
  with sorted_activeOrders[of d] have strict: "sorted_wrt (<) (map createdAt (activeOrders d))"
    by (simp add: strict_sorted_iff)
  show "map (getQueuePosition d) (activeOrders d)
      = map queuePosition (queueData (activeOrders d))"
  proof (rule nth_equalityI)
    show "length (map (getQueuePosition d) (activeOrders d))
        = length (map queuePosition (queueData (activeOrders d)))"
      by (simp add: queueData_length)
  next
    fix i assume "i < length (map (getQueuePosition d) (activeOrders d))"
    then have i: "i < length (activeOrders d)" by simp
    from filter_less_take[OF strict i] i
    show "map (getQueuePosition d) (activeOrders d) ! i
        = map queuePosition (queueData (activeOrders d)) ! i"
      by (simp add: a queueData_length queueData_nth)
  qed
qed

theorem queue_positions_witness:
  "distinct (map createdAt (activeOrders db3))
   \<and> map (getQueuePosition db3) (activeOrders db3) = [1, 2]"
proof -
  have dist: "distinct (map createdAt (activeOrders db3))"
    by (simp add: example_defs activeOrders_def isActive_def)
  have "map queuePosition (queueData (activeOrders db3)) = [1, 2]"
    by (simp add: example_defs activeOrders_def isActive_def queueData_def)
  with dist queue_positions[of db3 orderA] show ?thesis
    by simp
qed

text \<open>
  With two active orders created at the same clock reading, \<open>getQueuePosition\<close> gives
  position 1 to both, and the snapshot gives position 2 to an order that has no active
  order strictly before it.
\<close>

theorem queue_positions_tie:
  "activeOrders db2 = [orderA, orderB]
   \<and> map (getQueuePosition db2) (activeOrders db2) = [1, 1]
   \<and> map queuePosition (queueData (activeOrders db2)) = [1, 2]"
  by (simp add: example_defs activeOrders_def isActive_def queueData_def getQueuePosition_def)

section \<open>The broadcast\<close>



section \<open>The transport and the response\<close>

text \<open>
  Claim C4, as the code has it. When the PATCH handler moves a stored order from preparing
  to ready, with the Socket.io server initialised, the messages it emits are, in this
  order: one \<open>order:ready\<close> to the room of that order, one \<open>queue:update\<close> with the
  empty list to every connected socket (both from \<open>emitOrderReady\<close>), and then the
  messages of the regular snapshot, none of which is an \<open>order:ready\<close>. The first emit
  that throws ends the sequence; when none throws, all of them are sent.
\<close>

theorem ready_notification:
  assumes "findById (orders d) oid = Some ord" and "status ord = preparing" and "io = Some srv"
  shows "case patch_status now oid ''ready'' d io of (res, d', io') \<Rightarrow>
     (let msgs = [\<lparr>chan = OrderRoom oid, event = ''order:ready'', body = ReadyInfo oid\<rparr>,
                  \<lparr>chan = Global, event = ''queue:update'', body = Entries []\<rparr>]
                 @ snapshot_messages d'
      in io' = Some (srv\<lparr>sent := sent srv @ takeWhile (\<lambda>m. \<not> fails srv m) msgs\<rparr>)
         \<and> ((\<forall>m. \<not> fails srv m) \<longrightarrow> io' = Some (srv\<lparr>sent := sent srv @ msgs\<rparr>))
         \<and> (\<forall>m \<in> set (snapshot_messages d'). event m \<noteq> ''order:ready''))"
proof -
  have i: "order_id ord = oid" using assms(1) by (rule findById_Some_id)
  have p: "parse_status ''ready'' = Some ready" by (simp add: parse_status_def)
  have e: "\<forall>m \<in> set (snapshot_messages d'). event m \<noteq> ''order:ready''" for d'
    by (auto dest: snapshot_events)
  define d' where "d' = save d (ord\<lparr>status := ready, updatedAt := now\<rparr>)"
  define rm where "rm = ready_messages oid"
  have rm: "[\<lparr>chan = OrderRoom oid, event = ''order:ready'', body = ReadyInfo oid\<rparr>,
             \<lparr>chan = Global, event = ''queue:update'', body = Entries []\<rparr>] = rm"
    by (simp add: rm_def ready_messages_def)
  have tw: "takeWhile (\<lambda>m. \<not> fails srv m) (rm @ snapshot_messages d')
      = (if \<exists>m \<in> set rm. fails srv m then takeWhile (\<lambda>m. \<not> fails srv m) rm
         else rm @ takeWhile (\<lambda>m. \<not> fails srv m) (snapshot_messages d'))"
    by (auto simp: takeWhile_append1 takeWhile_append2 takeWhile_eq_all_conv)
  have all: "(\<forall>m. \<not> fails srv m) \<Longrightarrow> takeWhile (\<lambda>m. \<not> fails srv m) ms = ms" for ms
    by (simp add: takeWhile_eq_all_conv)
  have ps: "patch_status now oid ''ready'' d io =
      (if \<exists>m \<in> set rm. fails srv m
       then (Rejected, d', Some (srv\<lparr>sent := sent srv @ takeWhile (\<lambda>m. \<not> fails srv m) rm\<rparr>))
       else (Ok (ord\<lparr>status := ready, updatedAt := now\<rparr>), d',
             Some (srv\<lparr>sent := sent srv @ rm @ takeWhile (\<lambda>m. \<not> fails srv m)
                                                      (snapshot_messages d')\<rparr>)))"
    using assms i p
    by (simp add: patch_status_def patch_read_def patch_write_def Let_def d'_def rm_def
        emitOrderReady_Some emitQueueUpdate_Some takeWhile_eq_all_conv)
  show ?thesis
    unfolding ps rm Let_def
    using e[of d'] all[of "rm @ snapshot_messages d'"] by (auto simp: tw)
qed


text \<open>The database after order 1 of \<open>db3\<close> has been made ready, and its snapshot.\<close>

lemma patched_db3:
  "fst (snd (patch_status 1010 1 ''ready'' db3 io))
     = db3\<lparr>orders := [orderA\<lparr>status := ready, updatedAt := 1010\<rparr>, orderB\<lparr>status := ready\<rparr>,
                        orderC]\<rparr>"
  by (simp add: patch_status_def patch_read_def patch_write_db parse_status_def findById_def
      save_def example_defs Let_def)

lemma snapshot_patched_db3:
  "snapshot_messages (db3\<lparr>orders := [orderA\<lparr>status := ready, updatedAt := 1010\<rparr>,
                                        orderB\<lparr>status := ready\<rparr>, orderC]\<rparr>)
     = [\<lparr>chan = Global, event = ''queue:update'',
         body = Entries [\<lparr>orderId = 3, q_status = pending, q_customerName = ''Ann'',
                          queuePosition = 1\<rparr>]\<rparr>,
        \<lparr>chan = OrderRoom 3, event = ''queue:position'', body = Position 3 pending 1\<rparr>,
        \<lparr>chan = Kitchen, event = ''kitchen:queue'',
         body = Entries [\<lparr>orderId = 3, q_status = pending, q_customerName = ''Ann'',
                          queuePosition = 1\<rparr>]\<rparr>]"
  by (simp add: snapshot_messages_def activeOrders_def isActive_def queueData_def
      position_message_def example_defs Let_def)

text \<open>The messages of that transition on a server whose emits all succeed.\<close>

theorem ready_notification_witness:
  "findById (orders db3) 1 = Some (orderA\<lparr>status := preparing\<rparr>)
   \<and> snd (snd (patch_status 1010 1 ''ready'' db3 (Some working))) =
       Some (working\<lparr>sent :=
            [\<lparr>chan = OrderRoom 1, event = ''order:ready'', body = ReadyInfo 1\<rparr>,
             \<lparr>chan = Global, event = ''queue:update'', body = Entries []\<rparr>,
             \<lparr>chan = Global, event = ''queue:update'',
              body = Entries [\<lparr>orderId = 3, q_status = pending, q_customerName = ''Ann'',
                               queuePosition = 1\<rparr>]\<rparr>,
             \<lparr>chan = OrderRoom 3, event = ''queue:position'', body = Position 3 pending 1\<rparr>,
             \<lparr>chan = Kitchen, event = ''kitchen:queue'',
              body = Entries [\<lparr>orderId = 3, q_status = pending, q_customerName = ''Ann'',
                               queuePosition = 1\<rparr>]\<rparr>]\<rparr>)"
proof -
  have f: "findById (orders db3) 1 = Some (orderA\<lparr>status := preparing\<rparr>)"
    by (simp add: findById_def example_defs)
  have s: "status (orderA\<lparr>status := preparing\<rparr>) = preparing" by simp
  have io: "Some working = Some working" by simp
  have w: "\<forall>m. \<not> fails working m" by (simp add: working_def)
  note r = ready_notification[OF f s io, of 1010]
  from r have "snd (snd (patch_status 1010 1 ''ready'' db3 (Some working)))
      = Some (working\<lparr>sent := sent working @
          [\<lparr>chan = OrderRoom 1, event = ''order:ready'', body = ReadyInfo 1\<rparr>,
           \<lparr>chan = Global, event = ''queue:update'', body = Entries []\<rparr>]
          @ snapshot_messages (fst (snd (patch_status 1010 1 ''ready'' db3 (Some working))))\<rparr>)"
    using w by (simp add: Let_def split_beta)
  with f show ?thesis
    by (simp only: patched_db3 snapshot_patched_db3) (simp add: working_def)
qed

text \<open>
  Signalling readiness reaches the global channel: \<open>emitOrderReady\<close> itself sends a
  \<open>queue:update\<close> to every connected socket, before the snapshot.
\<close>

theorem ready_reaches_global:
  "emitOrderReady 1 (Some working) =
     (Some (working\<lparr>sent :=
        [\<lparr>chan = OrderRoom 1, event = ''order:ready'', body = ReadyInfo 1\<rparr>,
         \<lparr>chan = Global, event = ''queue:update'', body = Entries []\<rparr>]\<rparr>), False)
   \<and> take 2 (sent (the (snd (snd (patch_status 1010 1 ''ready'' db3 (Some working)))))) =
       [\<lparr>chan = OrderRoom 1, event = ''order:ready'', body = ReadyInfo 1\<rparr>,
        \<lparr>chan = Global, event = ''queue:update'', body = Entries []\<rparr>]"
  by (simp add: patch_status_def patch_read_def patch_write_def parse_status_def findById_def
      save_def example_defs Let_def emitOrderReady_Some emitQueueUpdate_Some
      ready_messages_def working_def)

text \<open>
  Claim C9, as the code has it. The database after each of the three handlers that write
  an order is the same for any two states of the transport, and so is the response of the
  two creation handlers: their only emits are those of \<open>emitQueueUpdate\<close>, whose failure
  stays inside its own promise. The response of the PATCH handler is the same for any two
  states of the transport when the requested status is not ready, and also when
  \<open>emitOrderReady\<close> throws on both or on neither.
\<close>

theorem transport_independence:
  "fst (post_order now cname its d ioa) = fst (post_order now cname its d iob)
   \<and> fst (snd (post_order now cname its d ioa)) = fst (snd (post_order now cname its d iob))
   \<and> fst (from_cart now uid d ioa) = fst (from_cart now uid d iob)
   \<and> fst (snd (from_cart now uid d ioa)) = fst (snd (from_cart now uid d iob))
   \<and> fst (snd (patch_status now oid s d ioa)) = fst (snd (patch_status now oid s d iob))
   \<and> (parse_status s \<noteq> Some ready \<longrightarrow>
        fst (patch_status now oid s d ioa) = fst (patch_status now oid s d iob))
   \<and> (snd (emitOrderReady oid ioa) = snd (emitOrderReady oid iob) \<longrightarrow>
        fst (patch_status now oid s d ioa) = fst (patch_status now oid s d iob))"
proof (intro conjI impI)
  show "fst (post_order now cname its d ioa) = fst (post_order now cname its d iob)"
    and "fst (snd (post_order now cname its d ioa)) = fst (snd (post_order now cname its d iob))"
    by (simp_all add: post_order_def split: option.splits sum.splits prod.splits)
  show "fst (from_cart now uid d ioa) = fst (from_cart now uid d iob)"
    and "fst (snd (from_cart now uid d ioa)) = fst (snd (from_cart now uid d iob))"
    by (simp_all add: from_cart_def Let_def split: option.splits sum.splits prod.splits)
  show "fst (snd (patch_status now oid s d ioa)) = fst (snd (patch_status now oid s d iob))"
    by (simp add: patch_status_def patch_write_db split: sum.splits)
next
  assume "parse_status s \<noteq> Some ready"
  then have "patch_read oid s d = Inr held \<Longrightarrow> status held \<noteq> ready" for held
    by (auto dest: patch_read_Inr)
  then show "fst (patch_status now oid s d ioa) = fst (patch_status now oid s d iob)"
    by (simp add: patch_status_def patch_write_def Let_def split: sum.splits)
next
  assume t: "snd (emitOrderReady oid ioa) = snd (emitOrderReady oid iob)"
  have i: "patch_read oid s d = Inr held \<Longrightarrow> order_id held = oid" for held
    by (auto dest!: patch_read_Inr findById_Some_id)
  show "fst (patch_status now oid s d ioa) = fst (patch_status now oid s d iob)"
  proof (cases "patch_read oid s d")
    case (Inl r)
    then show ?thesis by (simp add: patch_status_def)
  next
    case (Inr held)
    with i[OF Inr] t show ?thesis
      by (simp add: patch_status_def patch_write_def Let_def split_beta)
  qed
qed


text \<open>
  A transition to preparing with no server and with one whose emits all throw, and a
  transition to ready with no server and with one whose emits succeed.
\<close>

theorem transport_independence_witness:
  "parse_status ''preparing'' \<noteq> Some ready
   \<and> fst (patch_status 1005 2 ''preparing'' db2 None)
       = fst (patch_status 1005 2 ''preparing'' db2 (Some all_broken))
   \<and> fst (patch_status 1005 2 ''preparing'' db2 None)
       = Ok (orderB\<lparr>status := preparing, updatedAt := 1005\<rparr>)
   \<and> snd (emitOrderReady 1 None) = snd (emitOrderReady 1 (Some working))
   \<and> fst (patch_status 1010 1 ''ready'' db3 None)
       = fst (patch_status 1010 1 ''ready'' db3 (Some working))
   \<and> fst (patch_status 1010 1 ''ready'' db3 None)
       = Ok (orderA\<lparr>status := ready, updatedAt := 1010\<rparr>)"
proof -
  have p: "parse_status ''preparing'' \<noteq> Some ready" by (simp add: parse_status_def)
  have e: "snd (emitOrderReady 1 None) = snd (emitOrderReady 1 (Some working))"
    by (simp add: emitOrderReady_def ready_messages_def working_def emit_def)
  have a: "fst (patch_status 1005 2 ''preparing'' db2 None)
      = Ok (orderB\<lparr>status := preparing, updatedAt := 1005\<rparr>)"
    by (simp add: patch_status_def patch_read_def patch_write_def parse_status_def findById_def
        example_defs Let_def)
  have b: "fst (patch_status 1010 1 ''ready'' db3 None)
      = Ok (orderA\<lparr>status := ready, updatedAt := 1010\<rparr>)"
    by (simp add: patch_status_def patch_read_def patch_write_def parse_status_def findById_def
        example_defs Let_def emitOrderReady_def)
  from transport_independence[where now=1005 and oid=2 and s="''preparing''" and d=db2
      and ioa=None and iob="Some all_broken"] p
  have c: "fst (patch_status 1005 2 ''preparing'' db2 None)
      = fst (patch_status 1005 2 ''preparing'' db2 (Some all_broken))" by blast
  from transport_independence[where now=1010 and oid=1 and s="''ready''" and d=db3
      and ioa=None and iob="Some working"] e
  have d: "fst (patch_status 1010 1 ''ready'' db3 None)
      = fst (patch_status 1010 1 ''ready'' db3 (Some working))" by blast
  from p c a e d b show ?thesis by blast
qed

text \<open>
  The publish that fails inside \<open>emitOrderReady\<close> reaches the caller: order 1 of \<open>db3\<close> is
  made ready and stored as such in both runs, but on a server whose \<open>order:ready\<close> emit
  throws the handler ends before \<open>res.json\<close>.
\<close>

theorem publish_failure_surfaces:
  "findById (orders db3) 1 = Some (orderA\<lparr>status := preparing\<rparr>)
   \<and> patch_status 1010 1 ''ready'' db3 None
       = (Ok (orderA\<lparr>status := ready, updatedAt := 1010\<rparr>),
          db3\<lparr>orders := [orderA\<lparr>status := ready, updatedAt := 1010\<rparr>,
                           orderB\<lparr>status := ready\<rparr>, orderC]\<rparr>, None)
   \<and> patch_status 1010 1 ''ready'' db3 (Some ready_broken)
       = (Rejected,
          db3\<lparr>orders := [orderA\<lparr>status := ready, updatedAt := 1010\<rparr>,
                           orderB\<lparr>status := ready\<rparr>, orderC]\<rparr>, Some ready_broken)
   \<and> fst (patch_status 1010 1 ''ready'' db3 None)
       \<noteq> fst (patch_status 1010 1 ''ready'' db3 (Some ready_broken))"
  by (simp add: patch_status_def patch_read_def patch_write_def parse_status_def findById_def
      save_def example_defs Let_def emitOrderReady_def emitQueueUpdate_def emit_def
      ready_messages_def ready_broken_def)

section \<open>Creation keys\<close>

lemma trim_A: "trim ''A'' = ''A''" "trim ''B'' = ''B''"
  by (simp_all add: trim_def is_space_def)

text \<open>
  Claim C1, as the code has it. The only ordering key of an order is \<open>createdAt\<close>, the
  clock reading of its creation; there is no sequence number. Along any sequence of
  requests served from a well-formed database, the \<open>createdAt\<close> values of the stored
  orders are those before, followed by clock readings of the creation requests in call
  order (one for each creation that succeeded). So when the clock readings of the
  creation requests are strictly increasing, and later than the stored ones, the keys are
  pairwise different and sorting the collection by \<open>createdAt\<close> gives back the creation
  order. Nothing separates two orders created at the same clock reading.
\<close>

theorem creation_keys:
  assumes "wf_db d" and "run rs (d, io) = (d', io')"
  shows "(\<exists>ts. subseq ts (creation_times rs)
             \<and> map createdAt (orders d') = map createdAt (orders d) @ ts)
       \<and> (sorted_wrt (<) (map createdAt (orders d) @ creation_times rs) \<longrightarrow>
            distinct (map createdAt (orders d')) \<and> sort_key createdAt (orders d') = orders d')"
proof -
  from run_createdAt[OF assms(2,1)] obtain ts where
    ts: "subseq ts (creation_times rs)"
    and m: "map createdAt (orders d') = map createdAt (orders d) @ ts" by blast
  have "distinct (map createdAt (orders d')) \<and> sort_key createdAt (orders d') = orders d'"
    if s: "sorted_wrt (<) (map createdAt (orders d) @ creation_times rs)"
  proof -
    from ts have "subseq (map createdAt (orders d) @ ts)
                         (map createdAt (orders d) @ creation_times rs)"
      by (simp add: subseq_append')
    from subseq_sorted_wrt[OF this s] m have "sorted_wrt (<) (map createdAt (orders d'))"
      by simp
    then have "sorted (map createdAt (orders d')) \<and> distinct (map createdAt (orders d'))"
      by (simp add: strict_sorted_iff)
    then show ?thesis by (simp add: sort_key_id_if_sorted)
  qed
  with ts m show ?thesis by blast
qed

theorem creation_keys_witness:
  "wf_db db0 \<and> sorted_wrt (<) (map createdAt (orders db0) @ creation_times two_orders)
   \<and> distinct (map createdAt (orders (fst (run two_orders (db0, None)))))"
proof -
  have w: "wf_db db0" by (simp add: wf_db_def db0_def)
  have s: "sorted_wrt (<) (map createdAt (orders db0) @ creation_times two_orders)"
    by (simp add: db0_def two_orders_def)
  have r: "run two_orders (db0, None)
      = (fst (run two_orders (db0, None)), snd (run two_orders (db0, None)))" by simp
  from creation_keys[OF w r] s w show ?thesis by blast
qed

text \<open>
  Two orders placed one after the other at clock reading 1000: the database is \<open>db2\<close>,
  whose two orders (ids 1 and 2) carry the same key.
\<close>

theorem same_instant_same_key:
  "fst (run same_instant (db0, None)) = db2
   \<and> map createdAt (orders db2) = [1000, 1000]
   \<and> map order_id (orders db2) = [1, 2]"
  by (simp add: same_instant_def post_order_def post_validation_def trim_A Order_create_def
      order_valid_def emitQueueUpdate_def example_defs Let_def tea_amounts whole_quantities
      at_least_examples)

section \<open>Leaving the queue\<close>

text \<open>
  Serving a PATCH request without another request in between is its read followed by its
  write, and a sequence of whole requests is a sequence of events.
\<close>

lemma exec_patch_alone:
  "exec [PatchRead h oid s, PatchWrite h now] (d, io, held)
     = (fst (step (PatchStatus now oid s) (d, io)), snd (step (PatchStatus now oid s) (d, io)),
        held(h := None))"
  by (simp add: patch_status_def split: sum.splits)

lemma exec_Serve:
  "exec (map Serve rs) (d, io, held) = (fst (run rs (d, io)), snd (run rs (d, io)), held)"
  by (induction rs arbitrary: d io) simp_all

text \<open>
  Claim C6, as the code has it. Take a well-formed database in which the order with id
  \<open>oid\<close> is stored with a status other than pending and preparing. After any sequence of
  requests served one after the other, no entry of the active-queue snapshot carries
  \<open>oid\<close>, and \<open>GET /api/orders/:id\<close> answers with the order and the queue position
  \<open>null\<close>.
\<close>

theorem inactive_leaves_queue:
  assumes "wf_db d" and "findById (orders d) oid = Some ord" and "\<not> isActive (status ord)"
      and "run rs (d, io) = (d', io')"
  shows "oid \<notin> set (map orderId (queueData (activeOrders d')))
       \<and> (\<exists>ord'. get_order oid d' = Ok (ord', None))"
proof -
  from run_stored[OF assms(4,2)] obtain y where
    y: "findById (orders d') oid = Some y" and so: "same_order ord y" by blast
  from so assms(3) have na: "\<not> isActive (status y)" by (simp add: same_order_def)
  have wf: "wf_db d'" using assms(4,1) by (rule run_wf)
  have ym: "y \<in> set (orders d')" and yi: "order_id y = oid"
    using y by (rule findById_Some_mem, rule findById_Some_id)
  have "oid \<notin> order_id ` set (activeOrders d')"
  proof
    assume "oid \<in> order_id ` set (activeOrders d')"
    then obtain x where x: "x \<in> set (orders d')" "isActive (status x)" "order_id x = oid"
      by (auto simp: set_activeOrders)
    from wf have "distinct (map order_id (orders d'))" by (simp add: wf_db_def)
    from same_id_same_order[OF this x(1) ym] x(3) yi have "x = y" by simp
    with x(2) na show False by simp
  qed
  then have "oid \<notin> set (map orderId (queueData (activeOrders d')))"
    by (simp add: queueData_ids)
  moreover from y na have "get_order oid d' = Ok (y, None)" by (simp add: get_order_def)
  ultimately show ?thesis by blast
qed

theorem inactive_leaves_queue_witness:
  "wf_db db3 \<and> findById (orders db3) 2 = Some (orderB\<lparr>status := ready\<rparr>)
   \<and> \<not> isActive (status (orderB\<lparr>status := ready\<rparr>))
   \<and> 2 \<notin> set (map orderId (queueData (activeOrders (fst (run back_to_kitchen (db3, None))))))"
proof -
  have w: "wf_db db3" by (simp add: wf_db_def example_defs)
  have f: "findById (orders db3) 2 = Some (orderB\<lparr>status := ready\<rparr>)"
    by (simp add: findById_def example_defs)
  have n: "\<not> isActive (status (orderB\<lparr>status := ready\<rparr>))" by (simp add: isActive_def)
  have r: "run back_to_kitchen (db3, None)
      = (fst (run back_to_kitchen (db3, None)), snd (run back_to_kitchen (db3, None)))" by simp
  from inactive_leaves_queue[OF w f n r] w f n show ?thesis by blast
qed

text \<open>
  A save that comes late. Handler 0 reads order 1 of \<open>db2\<close> while it is pending and is
  allowed to make it preparing; before it saves, two other requests make the order
  preparing and then ready, so that it has left the queue. The save of handler 0 then
  writes the status it holds: the order is preparing again, it is back in the snapshot,
  and \<open>GET /api/orders/:id\<close> reports position 1 for it.
\<close>

theorem stale_save_reactivates:
  "wf_db db2
   \<and> map (\<lambda>x. (order_id x, status x)) (orders (fst (exec (take 3 stale_save) (db2, None, Map.empty))))
       = [(1, ready), (2, pending)]
   \<and> map orderId (queueData (activeOrders (fst (exec (take 3 stale_save) (db2, None, Map.empty)))))
       = [2]
   \<and> get_order 1 (fst (exec (take 3 stale_save) (db2, None, Map.empty)))
       = Ok (orderA\<lparr>status := ready, updatedAt := 1002\<rparr>, None)
   \<and> map (\<lambda>x. (order_id x, status x)) (orders (fst (exec stale_save (db2, None, Map.empty))))
       = [(1, preparing), (2, pending)]
   \<and> map orderId (queueData (activeOrders (fst (exec stale_save (db2, None, Map.empty)))))
       = [1, 2]
   \<and> get_order 1 (fst (exec stale_save (db2, None, Map.empty)))
       = Ok (orderA\<lparr>status := preparing, updatedAt := 1003\<rparr>, Some 1)"
  by (simp add: stale_save_def patch_status_def patch_read_def patch_write_def parse_status_def
      findById_def save_def emitOrderReady_def emitQueueUpdate_def get_order_def
      getQueuePosition_def activeOrders_def isActive_def queueData_def wf_db_def
      example_defs Let_def)

section \<open>Order creation\<close>

lemma build_items_Inr:
  "build_items nf un m its acc amt = Inr (its', amt') \<Longrightarrow>
     \<exists>new. its' = acc @ new
           \<and> amt' = foldl (\<lambda>a li. dadd a (dmul (price li) (quantity li))) amt new
           \<and> list_all2 (is_snapshot m) its new"
proof (induction its arbitrary: acc amt)
  case Nil
  then show ?case by simp
next
  case (Cons r rs)
  from Cons.prems obtain mi where mi: "m (req_menuItemId r) = Some mi" "isAvailable mi"
    by (auto split: option.splits if_splits)
  let ?li = "\<lparr>menuItemId = m_id mi, name = m_name mi, quantity = req_quantity r,
              price = m_price mi\<rparr>"
  from Cons.prems mi
  have "build_items nf un m rs (acc @ [?li]) (dadd amt (dmul (m_price mi) (req_quantity r)))
          = Inr (its', amt')"
    by (simp add: Let_def)
  from Cons.IH[OF this] obtain new where
    n: "its' = (acc @ [?li]) @ new"
       "amt' = foldl (\<lambda>a li. dadd a (dmul (price li) (quantity li)))
                 (dadd amt (dmul (m_price mi) (req_quantity r))) new"
       "list_all2 (is_snapshot m) rs new" by blast
  then have "its' = acc @ (?li # new)
           \<and> amt' = foldl (\<lambda>a li. dadd a (dmul (price li) (quantity li))) amt (?li # new)
           \<and> list_all2 (is_snapshot m) (r # rs) (?li # new)"
    using mi by (simp add: is_snapshot_def)
  then show ?case by blast
qed


text \<open>
  Claim C7, as the code has it. An order created by \<open>POST /api/orders\<close> or by
  \<open>POST /api/orders/from-cart\<close> has as \<open>totalAmount\<close> what the loop computes in double
  arithmetic: starting at zero, it adds the rounded product \<open>price * quantity\<close> of one
  stored line item after the other, rounding every sum. Each line item is the snapshot
  (id, name, price) of the requested catalog entry as the menu holds it at creation, with
  the requested quantity. Whatever requests follow, among them price updates and
  deletions of menu items, the order stored under that id keeps its line items (so every
  unit price) and its \<open>totalAmount\<close>.
\<close>

theorem price_snapshot:
  "(post_order now cname its d io = (Created (ord, qp), d', io') \<longrightarrow>
      totalAmount ord = double_total (items ord)
      \<and> list_all2 (is_snapshot (menu d)) its (items ord))
   \<and> (from_cart now uid d io = (Created (ord, qp), d', io') \<longrightarrow>
      totalAmount ord = double_total (items ord)
      \<and> (\<exists>cs. carts d uid = Some cs \<and> list_all2 (is_snapshot (menu d)) cs (items ord)))
   \<and> (findById (orders d) oid = Some x \<and> run rs (d, io) = (d'', io'') \<longrightarrow>
      (\<exists>y. findById (orders d'') oid = Some y \<and> items y = items x
            \<and> totalAmount y = totalAmount x))"
proof (intro conjI impI)
  assume a: "post_order now cname its d io = (Created (ord, qp), d', io')"
  from post_order_cases[OF a]
  have b: "build_items post_missing post_unavailable (menu d) its [] (Finite 0)
             = Inr (items ord, totalAmount ord)" by auto
  from build_items_Inr[OF b]
  show "totalAmount ord = double_total (items ord)"
    and "list_all2 (is_snapshot (menu d)) its (items ord)" by (auto simp: double_total_def)
next
  assume a: "from_cart now uid d io = (Created (ord, qp), d', io')"
  from from_cart_cases[OF a] obtain cs where cs: "carts d uid = Some cs"
    and b: "build_items cart_missing cart_unavailable (menu d) cs [] (Finite 0)
             = Inr (items ord, totalAmount ord)" by auto
  from build_items_Inr[OF b] cs
  show "totalAmount ord = double_total (items ord)"
    and "\<exists>cs. carts d uid = Some cs \<and> list_all2 (is_snapshot (menu d)) cs (items ord)"
    by (auto simp: double_total_def)
next
  assume "findById (orders d) oid = Some x \<and> run rs (d, io) = (d'', io'')"
  then have f: "findById (orders d) oid = Some x" and r: "run rs (d, io) = (d'', io'')" by auto
  from run_stored[OF r f]
  show "\<exists>y. findById (orders d'') oid = Some y \<and> items y = items x \<and> totalAmount y = totalAmount x"
    by (auto simp: same_order_def)
qed

text \<open>
  One tea ordered directly, the cart of Ann turned into an order, and the order of \<open>A\<close>
  after the price of the tea has changed and the tea has been deleted.
\<close>

theorem price_snapshot_witness:
  "post_order 1000 ''A'' one_tea db0 None
     = (Created (orderA, 1), db0\<lparr>orders := [orderA], nextId := 2\<rparr>, None)
   \<and> totalAmount orderA = double_total (items orderA)
   \<and> from_cart 1001 7 db0 None
        = (Created (orderC\<lparr>order_id := 1, items := [tea_line\<lparr>quantity := Finite 2\<rparr>],
                            totalAmount := Finite 100\<rparr>, 1),
           db0\<lparr>orders := [orderC\<lparr>order_id := 1, items := [tea_line\<lparr>quantity := Finite 2\<rparr>],
                                   totalAmount := Finite 100\<rparr>],
               nextId := 2, carts := (carts db0)(7 := Some [])\<rparr>, None)
   \<and> findById (orders db2) 1 = Some orderA
   \<and> (\<exists>y. findById (orders (fst (run price_change (db2, None)))) 1 = Some y
            \<and> items y = [tea_line] \<and> totalAmount y = Finite 50)"
proof -
  have p: "post_order 1000 ''A'' one_tea db0 None
             = (Created (orderA, 1), db0\<lparr>orders := [orderA], nextId := 2\<rparr>, None)"
    by (simp add: post_order_def post_validation_def trim_A Order_create_def order_valid_def
        emitQueueUpdate_def getQueuePosition_def isActive_def example_defs Let_def
        tea_amounts whole_quantities at_least_examples)
  have c: "from_cart 1001 7 db0 None
        = (Created (orderC\<lparr>order_id := 1, items := [tea_line\<lparr>quantity := Finite 2\<rparr>],
                            totalAmount := Finite 100\<rparr>, 1),
           db0\<lparr>orders := [orderC\<lparr>order_id := 1, items := [tea_line\<lparr>quantity := Finite 2\<rparr>],
                                   totalAmount := Finite 100\<rparr>],
               nextId := 2, carts := (carts db0)(7 := Some [])\<rparr>, None)"
    by (simp add: from_cart_def trim_def is_space_def Order_create_def order_valid_def
        emitQueueUpdate_def getQueuePosition_def isActive_def example_defs Let_def
        tea_amounts at_least_examples)
  have f: "findById (orders db2) 1 = Some orderA"
    by (simp add: findById_def example_defs)
  have r: "run price_change (db2, None)
             = (fst (run price_change (db2, None)), snd (run price_change (db2, None)))" by simp
  from price_snapshot[where now=1000 and cname="''A''" and its=one_tea and d=db0 and io=None
      and ord=orderA and qp=1 and d'="db0\<lparr>orders := [orderA], nextId := 2\<rparr>" and io'=None]
  have t: "totalAmount orderA = double_total (items orderA)"
    using p by blast
  from price_snapshot[where d=db2 and io=None and oid=1 and x=orderA and rs=price_change] f r
  have "\<exists>y. findById (orders (fst (run price_change (db2, None)))) 1 = Some y
            \<and> items y = items orderA \<and> totalAmount y = totalAmount orderA" by blast
  then have "\<exists>y. findById (orders (fst (run price_change (db2, None)))) 1 = Some y
            \<and> items y = [tea_line] \<and> totalAmount y = Finite 50" by (simp add: orderA_def)
  with p c f t show ?thesis by blast
qed

text \<open>
  Three candies at the price \<open>0.1\<close>. The stored unit price is the double \<open>0.1\<close> and the
  quantity is 3, but the stored total is the double \<open>0.30000000000000004\<close>, which is not
  three times the unit price.
\<close>

theorem rounded_total:
  "fst (post_order 1000 ''A'' three_candies db0 None)
     = Created (\<lparr>order_id = 1, userId = None, customerName = ''A'',
                 items = [\<lparr>menuItemId = 3, name = ''Candy'', quantity = Finite 3,
                           price = Finite tenth\<rparr>],
                 totalAmount = Finite (1351079888211149 / 4503599627370496),
                 status = pending, createdAt = 1000, updatedAt = 1000\<rparr>, 1)
   \<and> (1351079888211149 / 4503599627370496 :: rat) \<noteq> 3 * tenth
   \<and> (1351079888211149 / 4503599627370496 :: rat) \<noteq> 3 / 10"
proof -
  have "fst (post_order 1000 ''A'' three_candies db0 None)
     = Created (\<lparr>order_id = 1, userId = None, customerName = ''A'',
                 items = [\<lparr>menuItemId = 3, name = ''Candy'', quantity = Finite 3,
                           price = Finite tenth\<rparr>],
                 totalAmount = Finite (1351079888211149 / 4503599627370496),
                 status = pending, createdAt = 1000, updatedAt = 1000\<rparr>, 1)"
    by (simp add: post_order_def post_validation_def trim_A Order_create_def order_valid_def
        getQueuePosition_def isActive_def example_defs Let_def
        candy_amounts candy_total whole_quantities at_least_examples)
  moreover have "(1351079888211149 / 4503599627370496 :: rat) \<noteq> 3 * tenth"
    and "(1351079888211149 / 4503599627370496 :: rat) \<noteq> 3 / 10"
    by (simp_all add: tenth_def)
  ultimately show ?thesis by blast
qed




section \<open>Listings\<close>

lemma sort_desc_sorted: "sorted_wrt (\<ge>) (map createdAt (sort_desc os))"
proof -
  have "sorted (map (\<lambda>x. - createdAt x) (sort_desc os))"
    unfolding sort_desc_def by (rule sorted_sort_key)
  then show ?thesis by (simp add: sorted_wrt_map)
qed

lemma set_sort_desc: "set (sort_desc os) = set os" "length (sort_desc os) = length os"
  by (simp_all add: sort_desc_def)

lemma take_sorted_desc:
  assumes "sorted_wrt (\<ge>) (map createdAt ys)"
  shows "sorted_wrt (\<ge>) (map createdAt (take n ys))"
    and "x \<in> set (take n ys) \<Longrightarrow> y \<in> set ys \<Longrightarrow> y \<notin> set (take n ys)
           \<Longrightarrow> createdAt y \<le> createdAt x"
proof -
  have "map createdAt ys = map createdAt (take n ys) @ map createdAt (drop n ys)"
    by (simp flip: map_append)
  with assms have s: "sorted_wrt (\<ge>) (map createdAt (take n ys) @ map createdAt (drop n ys))"
    by simp
  from s show "sorted_wrt (\<ge>) (map createdAt (take n ys))"
    by (simp add: sorted_wrt_append)
  assume x: "x \<in> set (take n ys)" and y: "y \<in> set ys" "y \<notin> set (take n ys)"
  have "set ys = set (take n ys) \<union> set (drop n ys)"
    by (simp flip: set_append)
  with y have "y \<in> set (drop n ys)" by simp
  with s x show "createdAt y \<le> createdAt x"
    by (simp add: sorted_wrt_append)
qed

lemma capped_listing:
  fixes os :: "order list" and n :: nat and P :: "order \<Rightarrow> bool"
  defines "ys \<equiv> take n (sort_desc (filter P os))"
  shows "length ys = min n (length (filter P os))
       \<and> sorted_wrt (\<ge>) (map createdAt ys)
       \<and> set ys \<subseteq> {x \<in> set os. P x}
       \<and> (\<forall>x \<in> set ys. \<forall>y \<in> set os. P y \<and> y \<notin> set ys \<longrightarrow> createdAt y \<le> createdAt x)"
proof (intro conjI ballI impI)
  show "length ys = min n (length (filter P os))"
    by (simp add: ys_def set_sort_desc(2) min.commute)
  show "sorted_wrt (\<ge>) (map createdAt ys)"
    unfolding ys_def by (rule take_sorted_desc(1)[OF sort_desc_sorted])
  have "set ys \<subseteq> set (sort_desc (filter P os))"
    unfolding ys_def by (rule set_take_subset)
  then show "set ys \<subseteq> {x \<in> set os. P x}" by (auto simp: set_sort_desc(1))
  fix x y assume x: "x \<in> set ys" and y: "y \<in> set os" and py: "P y \<and> y \<notin> set ys"
  from y py have "y \<in> set (sort_desc (filter P os))" by (simp add: set_sort_desc(1))
  moreover from py have "y \<notin> set ys" ..
  ultimately show "createdAt y \<le> createdAt x"
    using x unfolding ys_def by (rule take_sorted_desc(2)[OF sort_desc_sorted, rotated])
qed

text \<open>
  \<open>GET /api/orders/history\<close> answers with a plain list of min(200, number of matching
  orders) orders, in descending order of \<open>createdAt\<close>; the list holds matching orders
  only, and every matching order it leaves out is no newer than each one it returns.
\<close>

lemma history_listing:
  "\<exists>xs. orders_get [''history''] qstatus qdate uid d = Ok (Listing xs)
       \<and> length xs = min 200 (length (filter (history_filter qstatus qdate) (orders d)))
       \<and> sorted_wrt (\<ge>) (map createdAt xs)
       \<and> set xs \<subseteq> {x \<in> set (orders d). history_filter qstatus qdate x}
       \<and> (\<forall>x \<in> set xs. \<forall>y \<in> set (orders d). history_filter qstatus qdate y \<and> y \<notin> set xs
              \<longrightarrow> createdAt y \<le> createdAt x)"
proof -
  let ?h = "take 200 (sort_desc (filter (history_filter qstatus qdate) (orders d)))"
  have r: "route_of [''history''] = Some History"
    by (simp add: route_of_def get_routes_def lower_char_def)
  have h: "orders_get [''history''] qstatus qdate uid d = Ok (Listing ?h)"
    by (simp add: orders_get_def r get_history_def)
  note c1 = capped_listing[of 200 "history_filter qstatus qdate" "orders d"]
  show ?thesis by (rule exI[of _ ?h]) (rule conjI[OF h c1])
qed

text \<open>The handler written for \<open>GET /my\<close> would do the same with the cap 50.\<close>

lemma my_handler_listing:
  "\<exists>ps. get_my uid qstatus d = Ok ps
       \<and> length ps = min 50 (length (filter (my_filter uid qstatus) (orders d)))
       \<and> sorted_wrt (\<ge>) (map createdAt (map fst ps))
       \<and> set (map fst ps) \<subseteq> {x \<in> set (orders d). my_filter uid qstatus x}
       \<and> (\<forall>x \<in> set (map fst ps). \<forall>y \<in> set (orders d).
              my_filter uid qstatus y \<and> y \<notin> set (map fst ps) \<longrightarrow> createdAt y \<le> createdAt x)"
proof -
  let ?m = "take 50 (sort_desc (filter (my_filter uid qstatus) (orders d)))"
  let ?pos = "\<lambda>ord. (ord, if isActive (status ord) then Some (getQueuePosition d ord) else None)"
  have fst_pos: "map fst (map ?pos ?m) = ?m" by (simp add: comp_def)
  have m: "get_my uid qstatus d = Ok (map ?pos ?m)" by (simp add: get_my_def)
  have lm: "length (map ?pos ?m) = length ?m" by (rule length_map)
  show ?thesis
    by (rule exI[of _ "map ?pos ?m"]) (rule conjI[OF m], unfold fst_pos lm, rule capped_listing)
qed

text \<open>No string of two characters is an ObjectId.\<close>

lemma parse_objectId_my: "parse_objectId ''my'' = None"
  by (simp add: parse_objectId_def)

text \<open>
  Claim C10, as the code has it. The per-owner listing cannot be asked for. The route
  \<open>/:id\<close> is registered before the route \<open>/my\<close> and matches every path of one
  segment, so no path reaches the handler of \<open>/my\<close>: \<open>GET /api/orders/my\<close> runs the
  handler of \<open>/:id\<close>, which looks up the order with the id \<open>my\<close> and ends with the
  cast error of that lookup, whoever asks and whatever the database holds.
\<close>

theorem my_listing_shadowed:
  "route_of [''my''] = Some ById
   \<and> orders_get [''my''] qstatus qdate uid d = Rejected
   \<and> (\<forall>path. route_of path \<noteq> Some My)"
proof (intro conjI allI)
  show r: "route_of [''my''] = Some ById"
    by (simp add: route_of_def get_routes_def lower_char_def)
  show "orders_get [''my''] qstatus qdate uid d = Rejected"
    by (simp add: orders_get_def r parse_objectId_my)
  fix path
  show "route_of path \<noteq> Some My"
  proof (cases path)
    case Nil
    then show ?thesis by (simp add: route_of_def get_routes_def)
  next
    case (Cons s rest)
    show ?thesis
    proof (cases rest)
      case Nil
      with Cons show ?thesis
        by (cases "s = []") (auto simp: route_of_def get_routes_def)
    next
      case (Cons t rest')
      with \<open>path = s # rest\<close> show ?thesis by (simp add: route_of_def get_routes_def)
    qed
  qed
qed

end
